theory Spec2Isabelle
  imports Main "HOL-Library.Sublist"
begin

section \<open>Strings and configuration of preprocess.py\<close>

text \<open>
  A Python \<open>str\<close> is a sequence of Unicode code points and \<open>len\<close> counts code points,
  so a string is modelled as a list of code points (natural numbers). \<open>bytes\<close> values
  (the encoded embeddings) are lists of byte values.
\<close>

type_synonym pystr = "nat list"
type_synonym bytes = "nat list"

text \<open>The ASCII literals of the source are written as HOL strings and converted.\<close>

definition str_of :: "string \<Rightarrow> pystr" where
  "str_of s = map of_char s"

text \<open>Lines 22 and 23: the chunk size configuration.\<close>

definition CHUNK_SIZE :: nat where
  "CHUNK_SIZE = 1000"

definition CHUNK_OVERLAP :: nat where
  "CHUNK_OVERLAP = 200"

section \<open>The chunker (create_chunks, lines 66 to 73)\<close>

text \<open>
  \<open>str.strip()\<close> without arguments removes the characters for which \<open>str.isspace()\<close>
  holds: the ASCII white space U+0009 to U+000D, U+001C to U+001F and U+0020, and the
  Unicode white space U+0085, U+00A0, U+1680, U+2000 to U+200A, U+2028, U+2029, U+202F,
  U+205F and U+3000.
\<close>

definition py_isspace :: "nat \<Rightarrow> bool" where
  "py_isspace c \<longleftrightarrow>
     (9 \<le> c \<and> c \<le> 13) \<or> (28 \<le> c \<and> c \<le> 32) \<or> c = 133 \<or> c = 160 \<or>
     c = 5760 \<or> (8192 \<le> c \<and> c \<le> 8202) \<or> c = 8232 \<or> c = 8233 \<or>
     c = 8239 \<or> c = 8287 \<or> c = 12288"

definition strip :: "pystr \<Rightarrow> pystr" where
  "strip s = rev (dropWhile py_isspace (rev (dropWhile py_isspace s)))"

text \<open>\<open>text.replace('\n', ' ')\<close>: every line feed (10) becomes a space (32).\<close>

definition replace_newlines :: "pystr \<Rightarrow> pystr" where
  "replace_newlines s = map (\<lambda>c. if c = 10 then 32 else c) s"

text \<open>
  Line 67 as a function of its own: the white space normalisation that \<open>create_chunks\<close>
  applies to its argument.
\<close>

definition normalize_ws :: "pystr \<Rightarrow> pystr" where
  "normalize_ws text = strip (replace_newlines text)"

text \<open>
  The slice \<open>s[i:j]\<close> for indices \<open>0 \<le> i\<close> and \<open>0 \<le> j\<close>: Python clips both ends to the
  length of the string and gives the empty string when \<open>j \<le> i\<close>.
\<close>

definition py_slice :: "pystr \<Rightarrow> nat \<Rightarrow> nat \<Rightarrow> pystr" where
  "py_slice s i j = take (j - i) (drop i s)"

text \<open>
  Lines 70 to 73: the loop \<open>for i in range(0, len(text), CHUNK_SIZE - CHUNK_OVERLAP)\<close>,
  with the loop variable \<open>i\<close> and the list \<open>chunks\<close> built by \<open>append\<close>.
\<close>

function chunk_loop :: "pystr \<Rightarrow> nat \<Rightarrow> pystr list \<Rightarrow> pystr list" where
  "chunk_loop text i chunks =
     (if i < length text
      then chunk_loop text (i + (CHUNK_SIZE - CHUNK_OVERLAP))
             (chunks @ [py_slice text i (i + CHUNK_SIZE)])
      else chunks)"
  by pat_completeness auto
termination
  by (relation "measure (\<lambda>(text, i, chunks). length text - i)")
     (auto simp: CHUNK_SIZE_def CHUNK_OVERLAP_def)

declare chunk_loop.simps [simp del]

definition create_chunks :: "pystr \<Rightarrow> pystr list" where
  "create_chunks text0 =
     (let text = strip (replace_newlines text0)
      in if length text \<le> CHUNK_SIZE then [text] else chunk_loop text 0 [])"

section \<open>Errors and values\<close>

text \<open>
  The exceptions of the program as values. \<open>AttributeError\<close> is raised by a method call
  on a value that lacks the method (\<open>None.group\<close>, \<open>strip\<close> on a value that is no string),
  \<open>KeyError\<close> by a missing dictionary key; \<open>OverflowError\<close> and \<open>UnicodeEncodeError\<close>
  by the binding of a parameter that SQLite cannot take; \<open>IndexError\<close>, \<open>TypeError\<close> and
  \<open>ClientError\<close> can come out of the embedding request and the indexing of its answer.
  \<open>MalformedDocumentError\<close> and \<open>NotFoundError\<close> are the error kinds that the
  specification names; no statement of preprocess.py raises them.
\<close>

datatype error =
  AttributeError | KeyError | OverflowError | UnicodeEncodeError
  | IndexError | TypeError | ClientError
  | MalformedDocumentError | NotFoundError

text \<open>
  The values of a decoded JSON post that SQLite can bind as parameters: \<open>null\<close>,
  integers and strings. (Floating point numbers, and the arrays and objects that SQLite
  refuses, are left out.)
\<close>

datatype jval = JNull | JInt int | JStr pystr

text \<open>
  Binding one parameter of an \<open>INSERT\<close> (the \<open>sqlite3\<close> module, at \<open>cursor.execute\<close>): an
  integer must fit a signed 64-bit integer, and a string must have a UTF-8 encoding, which
  a string with a surrogate code point (U+D800 to U+DFFF; \<open>json.load\<close> yields them for
  escapes such as \<open>"\ud800"\<close>) has not.
\<close>

definition has_surrogate :: "pystr \<Rightarrow> bool" where
  "has_surrogate s = list_ex (\<lambda>c. 55296 \<le> c \<and> c \<le> 57343) s"

fun bind_param :: "jval \<Rightarrow> error option" where
  "bind_param JNull = None"
| "bind_param (JInt n) =
     (if - (2 ^ 63) \<le> n \<and> n < 2 ^ 63 then None else Some OverflowError)"
| "bind_param (JStr s) = (if has_surrogate s then Some UnicodeEncodeError else None)"

text \<open>The parameters are bound from left to right; the first failure is the exception.\<close>

fun bind_parameters :: "jval list \<Rightarrow> error option" where
  "bind_parameters [] = None"
| "bind_parameters (x # xs) =
     (case bind_param x of Some e \<Rightarrow> Some e | None \<Rightarrow> bind_parameters xs)"

text \<open>
  What a column holds after a bound value is stored in it. SQLite applies the affinity
  of the column: \<open>NULL\<close> stays \<open>NULL\<close>, an integer in an \<open>INTEGER\<close> column and a text in a
  \<open>TEXT\<close> column are stored as they are. A text in an \<open>INTEGER\<close> column and an integer in
  a \<open>TEXT\<close> column are converted by SQLite (the text \<open>'7'\<close> becomes the integer 7, the
  integer 5 the text \<open>'5'\<close>, a text that is no number stays a text); the conversion is not
  computed here: \<open>SCoerced a v\<close> stands for its result.
\<close>

datatype affinity = Integer_affinity | Text_affinity

datatype sqlval = SNull | SInteger int | SText pystr | SCoerced affinity jval

fun column_value :: "affinity \<Rightarrow> jval \<Rightarrow> sqlval" where
  "column_value a JNull = SNull"
| "column_value Integer_affinity (JInt n) = SInteger n"
| "column_value Text_affinity (JStr s) = SText s"
| "column_value Integer_affinity (JStr s) = SCoerced Integer_affinity (JStr s)"
| "column_value Text_affinity (JInt n) = SCoerced Text_affinity (JInt n)"

section \<open>The chunk store (create_db, lines 26 to 58)\<close>

text \<open>
  Both tables have the columns \<open>id\<close> (here \<open>row_id\<close>), \<open>chunk_index\<close>, \<open>content\<close> and
  \<open>embedding\<close>; they differ in their provenance columns, which are grouped in the field
  \<open>meta\<close>. A column declared \<open>BLOB\<close> that holds \<open>NULL\<close> is \<open>None\<close>. The provenance
  columns of a discussion post are a record over the type of their values: the values of
  the post (\<open>jval\<close>) before the \<open>INSERT\<close>, the stored values (\<open>sqlval\<close>) in a row. The
  columns \<open>post_id\<close>, \<open>topic_id\<close>, \<open>post_number\<close> and \<open>likes\<close> are declared \<open>INTEGER\<close>, the
  others \<open>TEXT\<close>.
\<close>

record 'm chunk_row =
  row_id :: nat
  meta :: 'm
  chunk_index :: nat
  content :: pystr
  embedding :: "bytes option"

record 'v discourse_meta =
  post_id :: 'v
  topic_id :: 'v
  topic_title :: 'v
  post_number :: 'v
  author :: 'v
  created_at :: 'v
  likes :: 'v
  url :: 'v

record markdown_meta =
  doc_title :: pystr
  original_url :: pystr
  downloaded_at :: pystr

text \<open>
  A table is the list of its rows in insertion order, with the counter that SQLite keeps
  for an \<open>AUTOINCREMENT\<close> key (the largest id the table ever held).
\<close>

record 'm table =
  rows :: "'m chunk_row list"
  seq :: nat

record store =
  discourse_chunks :: "sqlval discourse_meta table"
  markdown_chunks :: "markdown_meta table"

text \<open>
  \<open>create_db\<close>: a database file that does not exist yet (\<open>None\<close>) gets the two empty
  tables; \<open>CREATE TABLE IF NOT EXISTS\<close> leaves the tables of an existing one as they are.
\<close>

definition empty_table :: "'m table" where
  "empty_table = \<lparr>rows = [], seq = 0\<rparr>"

fun create_db :: "store option \<Rightarrow> store" where
  "create_db None = \<lparr>discourse_chunks = empty_table, markdown_chunks = empty_table\<rparr>"
| "create_db (Some db) = db"

text \<open>
  \<open>INSERT\<close> with \<open>embedding = None\<close> (lines 87 to 95 and 123 to 127), once its parameters
  are bound and \<open>m\<close> are the provenance values as the columns hold them: the new row gets
  an id one larger than the largest id that the table holds or ever held.
\<close>

definition max_id :: "'m table \<Rightarrow> nat" where
  "max_id tbl = fold max (map row_id (rows tbl)) (seq tbl)"

definition insert_chunk :: "'m table \<Rightarrow> 'm \<Rightarrow> nat \<Rightarrow> pystr \<Rightarrow> 'm table" where
  "insert_chunk tbl m idx chunk =
     tbl\<lparr>rows := rows tbl @
            [\<lparr>row_id = Suc (max_id tbl), meta = m, chunk_index = idx, content = chunk,
              embedding = None\<rparr>],
         seq := Suc (max_id tbl)\<rparr>"

text \<open>
  \<open>SELECT id, content FROM table WHERE embedding IS NULL\<close> (lines 141 and 145); the rows
  come in the order of the table.
\<close>

definition fetch_unembedded :: "'m table \<Rightarrow> (nat \<times> pystr) list" where
  "fetch_unembedded tbl =
     map (\<lambda>r. (row_id r, content r)) (filter (\<lambda>r. embedding r = None) (rows tbl))"

text \<open>
  \<open>UPDATE table SET embedding=? WHERE id=?\<close> (line 157), for the table it is given. The
  statement sets the column in every row that the \<open>WHERE\<close> clause selects; selecting
  no row is not an error in SQLite, so no branch of the model fails. The result is a sum
  all the same, for the caller's error handling.
\<close>

definition set_embedding :: "'m table \<Rightarrow> nat \<Rightarrow> bytes \<Rightarrow> error + 'm table" where
  "set_embedding tbl i e =
     Inr (tbl\<lparr>rows := map (\<lambda>r. if row_id r = i then r\<lparr>embedding := Some e\<rparr> else r)
                        (rows tbl)\<rparr>)"

section \<open>Ingestion of discussion posts (process_discourse, lines 76 to 97)\<close>

text \<open>A post is a JSON object: a dictionary from keys to values.\<close>

type_synonym post = "string \<Rightarrow> jval option"

definition getitem :: "post \<Rightarrow> string \<Rightarrow> error + jval" where
  "getitem post k = (case post k of None \<Rightarrow> Inl KeyError | Some v \<Rightarrow> Inr v)"

text \<open>\<open>post["content"].strip()\<close>: only a string has the method.\<close>

fun strip_value :: "jval \<Rightarrow> error + pystr" where
  "strip_value (JStr s) = Inr (strip s)"
| "strip_value JNull = Inl AttributeError"
| "strip_value (JInt n) = Inl AttributeError"

text \<open>
  The provenance values of the parameter tuple (lines 92 to 94), looked up in the order
  of the source.
\<close>

definition discourse_values :: "post \<Rightarrow> error + jval discourse_meta" where
  "discourse_values post =
     (case getitem post ''post_id'' of Inl e \<Rightarrow> Inl e | Inr v1 \<Rightarrow>
     (case getitem post ''topic_id'' of Inl e \<Rightarrow> Inl e | Inr v2 \<Rightarrow>
     (case getitem post ''topic_title'' of Inl e \<Rightarrow> Inl e | Inr v3 \<Rightarrow>
     (case getitem post ''post_number'' of Inl e \<Rightarrow> Inl e | Inr v4 \<Rightarrow>
     (case getitem post ''author'' of Inl e \<Rightarrow> Inl e | Inr v5 \<Rightarrow>
     (case getitem post ''created_at'' of Inl e \<Rightarrow> Inl e | Inr v6 \<Rightarrow>
     (case getitem post ''like_count'' of Inl e \<Rightarrow> Inl e | Inr v7 \<Rightarrow>
     (case getitem post ''url'' of Inl e \<Rightarrow> Inl e | Inr v8 \<Rightarrow>
        Inr \<lparr>post_id = v1, topic_id = v2, topic_title = v3, post_number = v4,
             author = v5, created_at = v6, likes = v7, url = v8\<rparr>))))))))"

text \<open>The parameter tuple of lines 91 to 95, without the final \<open>None\<close>, in its order.\<close>

definition parameter_tuple :: "jval discourse_meta \<Rightarrow> nat \<Rightarrow> pystr \<Rightarrow> jval list" where
  "parameter_tuple v idx chunk =
     [post_id v, topic_id v, topic_title v, post_number v, author v, created_at v,
      likes v, JInt (int idx), JStr chunk, url v]"

text \<open>The provenance values as the columns of \<open>discourse_chunks\<close> hold them.\<close>

definition stored_meta :: "jval discourse_meta \<Rightarrow> sqlval discourse_meta" where
  "stored_meta v =
     \<lparr>post_id = column_value Integer_affinity (post_id v),
      topic_id = column_value Integer_affinity (topic_id v),
      topic_title = column_value Text_affinity (topic_title v),
      post_number = column_value Integer_affinity (post_number v),
      author = column_value Text_affinity (author v),
      created_at = column_value Text_affinity (created_at v),
      likes = column_value Integer_affinity (likes v),
      url = column_value Text_affinity (url v)\<rparr>"

text \<open>
  The inner loop \<open>for idx, chunk in enumerate(chunks)\<close> of lines 86 to 95: the tuple is
  built (a missing key raises), its values are bound (a value that cannot be bound
  raises), and the row is inserted.
\<close>

fun insert_post_chunks ::
  "post \<Rightarrow> (nat \<times> pystr) list \<Rightarrow> sqlval discourse_meta table \<Rightarrow>
   error + sqlval discourse_meta table"
where
  "insert_post_chunks post [] tbl = Inr tbl"
| "insert_post_chunks post ((idx, chunk) # rest) tbl =
     (case discourse_values post of
        Inl e \<Rightarrow> Inl e
      | Inr v \<Rightarrow>
          (case bind_parameters (parameter_tuple v idx chunk) of
             Some e \<Rightarrow> Inl e
           | None \<Rightarrow>
               insert_post_chunks post rest (insert_chunk tbl (stored_meta v) idx chunk)))"

text \<open>The outer loop \<open>for post in posts\<close> of lines 83 to 95.\<close>

fun discourse_loop ::
  "post list \<Rightarrow> sqlval discourse_meta table \<Rightarrow> error + sqlval discourse_meta table"
where
  "discourse_loop [] tbl = Inr tbl"
| "discourse_loop (post # posts) tbl =
     (case getitem post ''content'' of Inl e \<Rightarrow> Inl e | Inr c \<Rightarrow>
     (case strip_value c of Inl e \<Rightarrow> Inl e | Inr clean_text \<Rightarrow>
     (case insert_post_chunks post (enumerate 0 (create_chunks clean_text)) tbl of
        Inl e \<Rightarrow> Inl e
      | Inr tbl' \<Rightarrow> discourse_loop posts tbl')))"

text \<open>
  The argument \<open>posts\<close> is the decoded content of the posts file. The one \<open>commit\<close> is at
  line 96, after the loop: an exception inside the loop leaves the function before it, so
  the result \<open>Inl e\<close> stands for the exception with the database as it was.
\<close>

definition process_discourse :: "post list \<Rightarrow> store \<Rightarrow> error + store" where
  "process_discourse posts db =
     (case discourse_loop posts (discourse_chunks db) of
        Inl e \<Rightarrow> Inl e
      | Inr tbl \<Rightarrow> Inr (db\<lparr>discourse_chunks := tbl\<rparr>))"

section \<open>Ingestion of markdown documents (process_markdown, lines 100 to 129)\<close>

definition endswith :: "pystr \<Rightarrow> pystr \<Rightarrow> bool" where
  "endswith s suf = suffix suf s"

text \<open>
  A lazy \<open>(.*?)\<close> under \<open>re.DOTALL\<close> followed by a literal: the text before the first
  occurrence of the literal, and the text after that occurrence.
\<close>

fun lazy_until :: "pystr \<Rightarrow> pystr \<Rightarrow> (pystr \<times> pystr) option" where
  "lazy_until lit [] = (if prefix lit [] then Some ([], []) else None)"
| "lazy_until lit (c # cs) =
     (if prefix lit (c # cs) then Some ([], drop (length lit) (c # cs))
      else map_option (\<lambda>(before, after). (c # before, after)) (lazy_until lit cs))"

text \<open>
  Line 112, \<open>re.match(r'^---\n(.*?)\n---\n', content, re.DOTALL)\<close> on the content
  \<open>doc\<close> of a file: on a match, the group and \<open>content[match.end():]\<close>.
\<close>

definition match_frontmatter :: "pystr \<Rightarrow> (pystr \<times> pystr) option" where
  "match_frontmatter doc =
     (if prefix (str_of ''---'' @ [10]) doc
      then lazy_until ([10] @ str_of ''---'' @ [10]) (drop 4 doc)
      else None)"

text \<open>
  A lazy \<open>(.*?)"\<close> without \<open>re.DOTALL\<close>, matched at the start of a string: the dot does
  not match a line feed, so the group is the text before the first double quote (34),
  unless a line feed (10) or the end of the string comes first.
\<close>

fun quoted_group :: "pystr \<Rightarrow> pystr option" where
  "quoted_group [] = None"
| "quoted_group (c # cs) =
     (if c = 34 then Some []
      else if c = 10 then None
      else map_option ((#) c) (quoted_group cs))"

text \<open>
  \<open>re.search(r'key: "(.*?)"', meta)\<close> of lines 117 to 119, with \<open>key\<close> the literal up to
  and including the opening quote: the group of the leftmost match, \<open>None\<close> without one.
\<close>

fun re_search_quoted :: "pystr \<Rightarrow> pystr \<Rightarrow> pystr option" where
  "re_search_quoted key [] = None"
| "re_search_quoted key (c # cs) =
     (if prefix key (c # cs)
      then (case quoted_group (drop (length key) (c # cs)) of
              Some g \<Rightarrow> Some g
            | None \<Rightarrow> re_search_quoted key cs)
      else re_search_quoted key cs)"

text \<open>
  Lines 112 to 119: the metadata and the content that is chunked. \<open>.group(1)\<close> on the
  \<open>None\<close> that a failed \<open>re.search\<close> returns raises \<open>AttributeError\<close>.
\<close>

definition parse_frontmatter :: "pystr \<Rightarrow> error + (markdown_meta \<times> pystr)" where
  "parse_frontmatter doc =
     (case match_frontmatter doc of
        None \<Rightarrow> Inr (\<lparr>doc_title = [], original_url = [], downloaded_at = []\<rparr>, doc)
      | Some (meta_text, rest) \<Rightarrow>
          (case re_search_quoted (str_of ''title: '' @ [34]) meta_text of
             None \<Rightarrow> Inl AttributeError
           | Some title \<Rightarrow>
          (case re_search_quoted (str_of ''original_url: '' @ [34]) meta_text of
             None \<Rightarrow> Inl AttributeError
           | Some u \<Rightarrow>
          (case re_search_quoted (str_of ''downloaded_at: '' @ [34]) meta_text of
             None \<Rightarrow> Inl AttributeError
           | Some d \<Rightarrow>
               Inr (\<lparr>doc_title = title, original_url = u, downloaded_at = d\<rparr>, rest)))))"

text \<open>
  The inner loop of lines 122 to 127; the metadata are computed before it. All four
  values are strings out of the file, which the UTF-8 decoder of \<open>open\<close> has read (it
  yields no surrogate), stored in \<open>TEXT\<close> columns: the binding cannot fail and the columns
  hold the strings as they are.
\<close>

fun insert_chunks :: "'m \<Rightarrow> (nat \<times> pystr) list \<Rightarrow> 'm table \<Rightarrow> 'm table" where
  "insert_chunks m [] tbl = tbl"
| "insert_chunks m ((idx, chunk) # rest) tbl =
     insert_chunks m rest (insert_chunk tbl m idx chunk)"

text \<open>
  The loop over the directory listing (lines 104 to 127); a file is its name and its
  decoded content.
\<close>

fun markdown_loop ::
  "(pystr \<times> pystr) list \<Rightarrow> markdown_meta table \<Rightarrow> error + markdown_meta table"
where
  "markdown_loop [] tbl = Inr tbl"
| "markdown_loop ((filename, doc) # files) tbl =
     (if \<not> endswith filename (str_of ''.md'') then markdown_loop files tbl
      else (case parse_frontmatter doc of
              Inl e \<Rightarrow> Inl e
            | Inr (m, body) \<Rightarrow>
                markdown_loop files (insert_chunks m (enumerate 0 (create_chunks body)) tbl)))"

text \<open>As in \<open>process_discourse\<close>, the one \<open>commit\<close> (line 128) follows the loop.\<close>

definition process_markdown :: "(pystr \<times> pystr) list \<Rightarrow> store \<Rightarrow> error + store" where
  "process_markdown files db =
     (case markdown_loop files (markdown_chunks db) of
        Inl e \<Rightarrow> Inl e
      | Inr tbl \<Rightarrow> Inr (db\<lparr>markdown_chunks := tbl\<rparr>))"

section \<open>The embedding backfill (generate_embeddings, lines 132 to 161)\<close>

text \<open>
  Lines 153 to 156 as one function of the request: the embedding service, the decoding
  of its answer, the selection \<open>data["data"][0]["embedding"]\<close> and the encoding
  \<open>json.dumps(...).encode()\<close> give, for the request with a given number (counted from 0
  within a run) and a given input text, either an exception or the encoded bytes. The
  encoded bytes are a \<open>bytes\<close> object, never \<open>None\<close>.
\<close>

type_synonym service = "nat \<Rightarrow> pystr \<Rightarrow> error + bytes"

text \<open>
  The inner loop \<open>for row in dataset\<close> of lines 151 to 158 on one table. Every update is
  committed at once (line 158), so the result carries the table as it is when the loop
  ends or an exception leaves it, the number of requests made so far, and the exception
  if there is one.
\<close>

fun embed_rows ::
  "service \<Rightarrow> (nat \<times> pystr) list \<Rightarrow> 'm table \<Rightarrow> nat \<Rightarrow> 'm table \<times> nat \<times> error option"
where
  "embed_rows svc [] tbl n = (tbl, n, None)"
| "embed_rows svc ((i, c) # dataset) tbl n =
     (case svc n c of
        Inl e \<Rightarrow> (tbl, Suc n, Some e)
      | Inr emb \<Rightarrow>
          (case set_embedding tbl i emb of
             Inl e \<Rightarrow> (tbl, Suc n, Some e)
           | Inr tbl' \<Rightarrow> embed_rows svc dataset tbl' (Suc n)))"

text \<open>
  Both \<open>SELECT\<close>s run first (lines 141 to 146); then the outer loop of line 150 takes the
  discourse table and, unless an exception ended the run, the markdown table.
\<close>

definition generate_embeddings :: "service \<Rightarrow> store \<Rightarrow> store \<times> nat \<times> error option" where
  "generate_embeddings svc db =
     (let discourse = fetch_unembedded (discourse_chunks db);
          markdown = fetch_unembedded (markdown_chunks db)
      in case embed_rows svc discourse (discourse_chunks db) 0 of
           (dt, n, Some e) \<Rightarrow> (db\<lparr>discourse_chunks := dt\<rparr>, n, Some e)
         | (dt, n, None) \<Rightarrow>
             (case embed_rows svc markdown (markdown_chunks db) n of
                (mt, n', r) \<Rightarrow> (db\<lparr>discourse_chunks := dt, markdown_chunks := mt\<rparr>, n', r)))"

section \<open>The embedding field over time\<close>

text \<open>
  A row keeps its embedding from one state of a table to a later one: the later table
  has a row with the same id at the same position, and its embedding is set if it was set
  before.
\<close>

definition embedding_kept :: "'m chunk_row \<Rightarrow> 'm chunk_row \<Rightarrow> bool" where
  "embedding_kept r r' \<longleftrightarrow> row_id r' = row_id r \<and> (embedding r \<noteq> None \<longrightarrow> embedding r' \<noteq> None)"

definition rows_kept :: "'m table \<Rightarrow> 'm table \<Rightarrow> bool" where
  "rows_kept t t' \<longleftrightarrow>
     length (rows t) \<le> length (rows t') \<and>
     list_all2 embedding_kept (rows t) (take (length (rows t)) (rows t'))"

definition store_kept :: "store \<Rightarrow> store \<Rightarrow> bool" where
  "store_kept db db' \<longleftrightarrow>
     rows_kept (discourse_chunks db) (discourse_chunks db') \<and>
     rows_kept (markdown_chunks db) (markdown_chunks db')"

section \<open>Example data\<close>

text \<open>A small table, post, store and embedding service on which the theorems are instantiated.\<close>

definition demo_table :: "markdown_meta table" where
  "demo_table =
     \<lparr>rows =
        [\<lparr>row_id = 1, meta = \<lparr>doc_title = [], original_url = [], downloaded_at = []\<rparr>,
          chunk_index = 0, content = str_of ''first'', embedding = None\<rparr>,
         \<lparr>row_id = 2, meta = \<lparr>doc_title = [], original_url = [], downloaded_at = []\<rparr>,
          chunk_index = 1, content = str_of ''second'', embedding = Some [91, 93]\<rparr>],
      seq = 2\<rparr>"

definition demo_post :: post where
  "demo_post = map_of
     [(''content'', JStr (str_of ''hi there'')), (''post_id'', JInt 7), (''topic_id'', JInt 3),
      (''topic_title'', JStr (str_of ''T'')), (''post_number'', JInt 1),
      (''author'', JStr (str_of ''ann'')), (''created_at'', JStr (str_of ''2024'')),
      (''like_count'', JInt 0), (''url'', JStr (str_of ''u''))]"

definition demo_store :: store where
  "demo_store =
     \<lparr>discourse_chunks =
        \<lparr>rows =
           [\<lparr>row_id = 1,
             meta = \<lparr>post_id = SInteger 7, topic_id = SInteger 3,
                    topic_title = SText (str_of ''T''), post_number = SInteger 1,
                    author = SText (str_of ''ann''), created_at = SText (str_of ''2024''),
                    likes = SInteger 0, url = SText (str_of ''u'')\<rparr>,
             chunk_index = 0, content = str_of ''hi there'', embedding = None\<rparr>],
         seq = 1\<rparr>,
      markdown_chunks = demo_table\<rparr>"

definition demo_service :: service where
  "demo_service n c = Inr [91, 48 + n, 93]"

text \<open>
  A post whose content is \<open>"A" * 2500\<close>, the store that its ingestion into a new database
  gives, and a document whose header block lacks the field \<open>original_url\<close>.
\<close>

definition long_post :: post where
  "long_post = demo_post(''content'' \<mapsto> JStr (replicate 2500 65))"

definition long_post_row ::
  "nat \<Rightarrow> nat \<Rightarrow> pystr \<Rightarrow> sqlval discourse_meta chunk_row" where
  "long_post_row i idx chunk =
     \<lparr>row_id = i,
      meta = \<lparr>post_id = SInteger 7, topic_id = SInteger 3,
             topic_title = SText (str_of ''T''), post_number = SInteger 1,
             author = SText (str_of ''ann''), created_at = SText (str_of ''2024''),
             likes = SInteger 0, url = SText (str_of ''u'')\<rparr>,
      chunk_index = idx, content = chunk, embedding = None\<rparr>"

definition long_post_store :: store where
  "long_post_store =
     \<lparr>discourse_chunks =
        \<lparr>rows = [long_post_row 1 0 (replicate 1000 65), long_post_row 2 1 (replicate 1000 65),
                 long_post_row 3 2 (replicate 900 65), long_post_row 4 3 (replicate 100 65)],
         seq = 4\<rparr>,
      markdown_chunks = empty_table\<rparr>"

text \<open>A text of \<open>n\<close> printable characters in which neighbouring characters differ.\<close>

definition varied_text :: "nat \<Rightarrow> pystr" where
  "varied_text n = map (\<lambda>k. 33 + k mod 90) [0..<n]"

definition doc_without_url :: pystr where
  "doc_without_url =
     str_of ''---'' @ [10] @ str_of ''title: '' @ [34] @ str_of ''X'' @ [34, 10] @
     str_of ''---'' @ [10] @ str_of ''body''"

section \<open>Properties of white space normalisation\<close>

lemma isspace_replace: "py_isspace (if c = 10 then 32 else c) = py_isspace c"
  by (simp add: py_isspace_def)

lemma dropWhile_replace:
  "dropWhile py_isspace (replace_newlines s) = replace_newlines (dropWhile py_isspace s)"
  unfolding replace_newlines_def
  by (induction s) (simp_all add: isspace_replace)

lemma rev_replace: "rev (replace_newlines s) = replace_newlines (rev s)"
  by (simp add: replace_newlines_def rev_map)

lemma strip_replace: "strip (replace_newlines s) = replace_newlines (strip s)"
  by (simp add: strip_def dropWhile_replace rev_replace)

lemma replace_idem: "replace_newlines (replace_newlines s) = replace_newlines s"
  by (simp add: replace_newlines_def)

text \<open>What \<open>strip\<close> keeps is an initial segment of the string without its leading white space.\<close>

lemma strip_split: "\<exists>c. dropWhile py_isspace s = strip s @ c"
proof -
  let ?a = "dropWhile py_isspace s"
  have "strip s @ rev (takeWhile py_isspace (rev ?a)) =
        rev (takeWhile py_isspace (rev ?a) @ dropWhile py_isspace (rev ?a))"
    by (simp only: strip_def rev_append)
  also have "\<dots> = ?a"
    by (simp only: takeWhile_dropWhile_id rev_rev_ident)
  finally show ?thesis by metis
qed

lemma strip_head: "dropWhile py_isspace (strip s) = strip s"
proof (cases "strip s")
  case Nil
  then show ?thesis by simp
next
  case (Cons x xs)
  obtain c where c: "dropWhile py_isspace s = strip s @ c"
    using strip_split by blast
  then have "dropWhile py_isspace s \<noteq> []" and "hd (dropWhile py_isspace s) = x"
    using Cons by simp_all
  then have "\<not> py_isspace x"
    using hd_dropWhile [of py_isspace s] by auto
  then show ?thesis using Cons by simp
qed

lemma strip_idem: "strip (strip s) = strip s"
proof -
  have "strip (strip s) = rev (dropWhile py_isspace (rev (strip s)))"
    by (simp add: strip_def [of "strip s"] strip_head)
  also have "rev (strip s) = dropWhile py_isspace (rev (dropWhile py_isspace s))"
    by (simp add: strip_def)
  finally show ?thesis by (simp add: strip_def)
qed

lemma normalize_idem: "normalize_ws (normalize_ws t) = normalize_ws t"
  by (simp add: normalize_ws_def strip_replace replace_idem strip_idem)

lemma normalize_strip: "normalize_ws (strip t) = normalize_ws t"
  by (simp add: normalize_ws_def strip_replace strip_idem)

lemma strip_replicate: "\<not> py_isspace c \<Longrightarrow> strip (replicate n c) = replicate n c"
  by (simp add: strip_def)

lemma normalize_replicate: "\<not> py_isspace c \<Longrightarrow> normalize_ws (replicate n c) = replicate n c"
  by (auto simp add: normalize_ws_def replace_newlines_def strip_replicate py_isspace_def)

lemma not_space_A: "\<not> py_isspace 65"
  by (simp add: py_isspace_def)

section \<open>Properties of the chunk loop\<close>

lemma step_pos: "0 < CHUNK_SIZE - CHUNK_OVERLAP"
  by (simp add: CHUNK_SIZE_def CHUNK_OVERLAP_def)

lemma overlap_le_size: "CHUNK_OVERLAP \<le> CHUNK_SIZE"
  by (simp add: CHUNK_SIZE_def CHUNK_OVERLAP_def)

lemma overlap_le_step: "CHUNK_OVERLAP \<le> CHUNK_SIZE - CHUNK_OVERLAP"
  by (simp add: CHUNK_SIZE_def CHUNK_OVERLAP_def)

lemma chunk_loop_step:
  "i < length t \<Longrightarrow>
   chunk_loop t i chunks =
   chunk_loop t (i + (CHUNK_SIZE - CHUNK_OVERLAP)) (chunks @ [py_slice t i (i + CHUNK_SIZE)])"
  by (subst chunk_loop.simps) simp

lemma chunk_loop_stop: "\<not> i < length t \<Longrightarrow> chunk_loop t i chunks = chunks"
  by (subst chunk_loop.simps) simp

text \<open>The accumulator only collects: the loop started with any list appends to it.\<close>

lemma chunk_loop_acc: "chunk_loop t i chunks = chunks @ chunk_loop t i []"
proof (induction "length t - i" arbitrary: i chunks rule: less_induct)
  case less
  show ?case
  proof (cases "i < length t")
    case True
    let ?j = "i + (CHUNK_SIZE - CHUNK_OVERLAP)"
    have smaller: "length t - ?j < length t - i"
      using True step_pos by arith
    have "chunk_loop t i chunks = chunk_loop t ?j (chunks @ [py_slice t i (i + CHUNK_SIZE)])"
      using True by (rule chunk_loop_step)
    also have "\<dots> = (chunks @ [py_slice t i (i + CHUNK_SIZE)]) @ chunk_loop t ?j []"
      by (rule less [OF smaller])
    finally have left: "chunk_loop t i chunks =
        (chunks @ [py_slice t i (i + CHUNK_SIZE)]) @ chunk_loop t ?j []" .
    have "chunk_loop t i [] = chunk_loop t ?j ([] @ [py_slice t i (i + CHUNK_SIZE)])"
      using True by (rule chunk_loop_step)
    also have "\<dots> = ([] @ [py_slice t i (i + CHUNK_SIZE)]) @ chunk_loop t ?j []"
      by (rule less [OF smaller])
    finally have "chunk_loop t i [] = [py_slice t i (i + CHUNK_SIZE)] @ chunk_loop t ?j []"
      by simp
    with left show ?thesis by simp
  next
    case False
    then show ?thesis by (simp add: chunk_loop_stop)
  qed
qed

lemma chunk_loop_unfold:
  "chunk_loop t i [] =
     (if i < length t
      then py_slice t i (i + CHUNK_SIZE) # chunk_loop t (i + (CHUNK_SIZE - CHUNK_OVERLAP)) []
      else [])"
proof (cases "i < length t")
  case True
  then have "chunk_loop t i [] =
      chunk_loop t (i + (CHUNK_SIZE - CHUNK_OVERLAP)) [py_slice t i (i + CHUNK_SIZE)]"
    by (simp add: chunk_loop_step)
  then show ?thesis
    using True
      chunk_loop_acc [of t "i + (CHUNK_SIZE - CHUNK_OVERLAP)" "[py_slice t i (i + CHUNK_SIZE)]"]
    by simp
next
  case False
  then show ?thesis by (simp add: chunk_loop_stop)
qed

text \<open>Chunk number \<open>k\<close> exists exactly when its start offset lies inside the text.\<close>

lemma chunk_loop_exists:
  "k < length (chunk_loop t i []) \<longleftrightarrow> i + k * (CHUNK_SIZE - CHUNK_OVERLAP) < length t"
proof (induction k arbitrary: i)
  case 0
  show ?case by (subst chunk_loop_unfold) simp
next
  case (Suc k)
  show ?case
  proof (cases "i < length t")
    case True
    then show ?thesis
      using Suc [of "i + (CHUNK_SIZE - CHUNK_OVERLAP)"]
      by (subst chunk_loop_unfold) (simp add: add.assoc)
  next
    case False
    then show ?thesis by (subst chunk_loop_unfold) simp
  qed
qed

lemma chunk_loop_nth:
  "k < length (chunk_loop t i []) \<Longrightarrow>
   chunk_loop t i [] ! k =
   py_slice t (i + k * (CHUNK_SIZE - CHUNK_OVERLAP))
     (i + k * (CHUNK_SIZE - CHUNK_OVERLAP) + CHUNK_SIZE)"
proof (induction k arbitrary: i)
  case 0
  then have "i < length t" using chunk_loop_exists [of 0 t i] by simp
  then show ?case by (subst chunk_loop_unfold) simp
next
  case (Suc k)
  then have "i < length t" using chunk_loop_exists [of "Suc k" t i] by simp
  then have eq: "chunk_loop t i [] =
      py_slice t i (i + CHUNK_SIZE) # chunk_loop t (i + (CHUNK_SIZE - CHUNK_OVERLAP)) []"
    by (subst chunk_loop_unfold) simp
  with Suc.prems have "k < length (chunk_loop t (i + (CHUNK_SIZE - CHUNK_OVERLAP)) [])"
    by simp
  from Suc.IH [OF this] show ?case
    by (simp add: eq add.assoc)
qed

text \<open>
  Without their first \<open>CHUNK_OVERLAP\<close> characters, the chunks from offset \<open>i\<close> on tile the
  text from offset \<open>i + CHUNK_OVERLAP\<close> on.
\<close>

lemma concat_drop_chunks:
  "concat (map (drop CHUNK_OVERLAP) (chunk_loop t i [])) = drop (i + CHUNK_OVERLAP) t"
proof (induction "length t - i" arbitrary: i rule: less_induct)
  case less
  show ?case
  proof (cases "i < length t")
    case True
    let ?j = "i + (CHUNK_SIZE - CHUNK_OVERLAP)"
    have smaller: "length t - ?j < length t - i"
      using True step_pos by arith
    have "concat (map (drop CHUNK_OVERLAP) (chunk_loop t i [])) =
          drop CHUNK_OVERLAP (py_slice t i (i + CHUNK_SIZE)) @ drop (?j + CHUNK_OVERLAP) t"
      using True less [OF smaller] by (subst chunk_loop_unfold) simp
    also have "drop CHUNK_OVERLAP (py_slice t i (i + CHUNK_SIZE)) =
               take (CHUNK_SIZE - CHUNK_OVERLAP) (drop (i + CHUNK_OVERLAP) t)"
      by (simp add: py_slice_def drop_take add.commute)
    also have "?j + CHUNK_OVERLAP = (CHUNK_SIZE - CHUNK_OVERLAP) + (i + CHUNK_OVERLAP)"
      by simp
    finally show ?thesis
      by (simp only: drop_drop [symmetric] append_take_drop_id)
  next
    case False
    then show ?thesis by (subst chunk_loop_unfold) simp
  qed
qed

lemma long_nonempty: "CHUNK_SIZE < length n \<Longrightarrow> n \<noteq> []"
  by auto

lemma create_chunks_short:
  "length (normalize_ws t) \<le> CHUNK_SIZE \<Longrightarrow> create_chunks t = [normalize_ws t]"
  by (simp add: create_chunks_def normalize_ws_def)

lemma create_chunks_long:
  "CHUNK_SIZE < length (normalize_ws t) \<Longrightarrow>
   create_chunks t = chunk_loop (normalize_ws t) 0 []"
  by (simp add: create_chunks_def normalize_ws_def)

lemma create_chunks_nonempty: "create_chunks t \<noteq> []"
proof (cases "length (normalize_ws t) \<le> CHUNK_SIZE")
  case True
  then show ?thesis by (simp add: create_chunks_short)
next
  case False
  then have "normalize_ws t \<noteq> []" by auto
  then show ?thesis
    using False chunk_loop_exists [of 0 "normalize_ws t" 0]
    by (simp add: create_chunks_long)
qed

text \<open>The chunks of a run of one repeated character that is not white space.\<close>

lemma slice_replicate: "py_slice (replicate n c) i j = replicate (min (j - i) (n - i)) c"
  by (simp add: py_slice_def)

lemma chunks_A1500:
  "create_chunks (replicate 1500 65) = [replicate 1000 65, replicate 700 65]"
proof -
  have n: "normalize_ws (replicate 1500 65) = replicate 1500 65"
    using not_space_A by (rule normalize_replicate)
  have "chunk_loop (replicate 1500 65) 0 [] = [replicate 1000 65, replicate 700 65]"
    by (simp add: chunk_loop_step chunk_loop_stop slice_replicate
        CHUNK_SIZE_def CHUNK_OVERLAP_def)
  then show ?thesis
    by (simp add: create_chunks_long n CHUNK_SIZE_def)
qed

lemma chunks_A2500:
  "create_chunks (replicate 2500 65) =
     [replicate 1000 65, replicate 1000 65, replicate 900 65, replicate 100 65]"
proof -
  have n: "normalize_ws (replicate 2500 65) = replicate 2500 65"
    using not_space_A by (rule normalize_replicate)
  have "chunk_loop (replicate 2500 65) 0 [] =
      [replicate 1000 65, replicate 1000 65, replicate 900 65, replicate 100 65]"
    by (simp add: chunk_loop_step chunk_loop_stop slice_replicate
        CHUNK_SIZE_def CHUNK_OVERLAP_def)
  then show ?thesis
    by (simp add: create_chunks_long n CHUNK_SIZE_def)
qed

text \<open>The chunks of a text of 2500 and of a text of 1600 characters.\<close>

lemma chunk_loop_2500:
  "length n = 2500 \<Longrightarrow>
   chunk_loop n 0 [] =
     [py_slice n 0 1000, py_slice n 800 1800, py_slice n 1600 2600, py_slice n 2400 3400]"
  by (simp add: chunk_loop_step chunk_loop_stop CHUNK_SIZE_def CHUNK_OVERLAP_def)

lemma create_chunks_2500:
  assumes "length (normalize_ws c) = 2500"
  shows "create_chunks c =
     [py_slice (normalize_ws c) 0 1000, py_slice (normalize_ws c) 800 1800,
      py_slice (normalize_ws c) 1600 2600, py_slice (normalize_ws c) 2400 3400]"
proof -
  have "CHUNK_SIZE < length (normalize_ws c)"
    using assms by (simp add: CHUNK_SIZE_def)
  then show ?thesis
    using chunk_loop_2500 [OF assms] by (simp add: create_chunks_long)
qed

lemma create_chunks_1600:
  assumes "length (normalize_ws c) = 1600"
  shows "create_chunks c = [py_slice (normalize_ws c) 0 1000, py_slice (normalize_ws c) 800 1800]"
proof -
  have "CHUNK_SIZE < length (normalize_ws c)"
    using assms by (simp add: CHUNK_SIZE_def)
  moreover have "chunk_loop (normalize_ws c) 0 [] =
      [py_slice (normalize_ws c) 0 1000, py_slice (normalize_ws c) 800 1800]"
    using assms by (simp add: chunk_loop_step chunk_loop_stop CHUNK_SIZE_def CHUNK_OVERLAP_def)
  ultimately show ?thesis by (simp add: create_chunks_long)
qed

text \<open>A text without white space is its own normal form.\<close>

lemma strip_no_space:
  assumes "\<forall>c \<in> set s. \<not> py_isspace c"
  shows "strip s = s"
proof -
  have keep: "dropWhile py_isspace xs = xs" if "\<forall>c \<in> set xs. \<not> py_isspace c" for xs
    using that by (cases xs) simp_all
  have "\<forall>c \<in> set (rev s). \<not> py_isspace c"
    using assms by simp
  then have "dropWhile py_isspace (rev s) = rev s"
    by (rule keep)
  then show ?thesis
    using keep [OF assms] by (simp add: strip_def)
qed

lemma line_feed_is_space: "py_isspace 10"
  by (simp add: py_isspace_def)

lemma normalize_no_space:
  assumes "\<forall>c \<in> set s. \<not> py_isspace c"
  shows "normalize_ws s = s"
proof -
  have "map (\<lambda>c. if c = 10 then 32 else c) s = s"
  proof (rule map_idI)
    fix c assume "c \<in> set s"
    then have "\<not> py_isspace c" using assms by simp
    then have "c \<noteq> 10" using line_feed_is_space by blast
    then show "(if c = 10 then 32 else c) = c" by simp
  qed
  then have "replace_newlines s = s"
    by (simp add: replace_newlines_def)
  then show ?thesis
    using strip_no_space [OF assms] by (simp add: normalize_ws_def)
qed

lemma printable_not_space: "33 \<le> c \<Longrightarrow> c \<le> 122 \<Longrightarrow> \<not> py_isspace c"
  unfolding py_isspace_def by linarith

lemma normalize_varied_text: "normalize_ws (varied_text n) = varied_text n"
proof (rule normalize_no_space)
  show "\<forall>c \<in> set (varied_text n). \<not> py_isspace c"
  proof
    fix c assume "c \<in> set (varied_text n)"
    then have "c \<in> (\<lambda>k. 33 + k mod 90) ` set [0..<n]"
      by (simp add: varied_text_def)
    then obtain k where c: "c = 33 + k mod 90"
      by (rule imageE)
    have "k mod 90 < 90" by simp
    then have "k mod 90 \<le> 89" by simp
    then have "33 \<le> c" and "c \<le> 122"
      using c by simp_all
    then show "\<not> py_isspace c" by (rule printable_not_space)
  qed
qed

lemma length_varied_text: "length (varied_text n) = n"
  by (simp add: varied_text_def)

section \<open>The claims about the chunker\<close>

text \<open>
  Claim C7. For every already normalised text \<open>t\<close> (normalising it changes nothing) of
  at most \<open>CHUNK_SIZE\<close> characters, \<open>create_chunks t\<close> is the one-element list \<open>[t]\<close>; so
  the result is not empty, and the empty text gives one empty chunk.
\<close>

theorem C7_short_text_single_chunk:
  assumes "normalize_ws t = t" and "length t \<le> CHUNK_SIZE"
  shows "create_chunks t = [t] \<and> create_chunks t \<noteq> [] \<and> create_chunks [] = [[]]"
proof -
  have "create_chunks t = [t]"
    using assms create_chunks_short [of t] by simp
  moreover have "create_chunks [] = [[]]"
    by (simp add: create_chunks_def strip_def replace_newlines_def)
  ultimately show ?thesis by simp
qed

theorem C7_witness:
  "normalize_ws (str_of ''hello world'') = str_of ''hello world'' \<and>
   length (str_of ''hello world'') \<le> CHUNK_SIZE \<and>
   create_chunks (str_of ''hello world'') = [str_of ''hello world''] \<and>
   create_chunks (str_of ''hello world'') \<noteq> [] \<and>
   create_chunks [] = [[]]"
proof -
  have n: "normalize_ws (str_of ''hello world'') = str_of ''hello world''"
    by (simp add: normalize_ws_def strip_def replace_newlines_def str_of_def py_isspace_def)
  have l: "length (str_of ''hello world'') \<le> CHUNK_SIZE"
    by (simp add: str_of_def CHUNK_SIZE_def)
  show ?thesis
    using n l C7_short_text_single_chunk [OF n l] by simp
qed

text \<open>
  Claim C8. Chunking the 1500 characters \<open>"A" * 1500\<close> (with the configured size 1000 and
  overlap 200) gives exactly two chunks: the characters at offsets 0 to 999 and the
  characters at offsets 800 to 1499, the second of length 700.
\<close>

theorem C8_chunks_of_1500:
  "create_chunks (replicate 1500 65) =
     [py_slice (replicate 1500 65) 0 1000, py_slice (replicate 1500 65) 800 1500] \<and>
   length (create_chunks (replicate 1500 65)) = 2 \<and>
   length (py_slice (replicate 1500 65) 800 1500) = 700"
  by (simp add: chunks_A1500 slice_replicate)

text \<open>
  Claim C10. The chunker normalises white space itself: chunking a text and chunking its
  normalised form (line feeds replaced by spaces, then stripped) give the same chunks.
\<close>

theorem C10_chunker_normalizes:
  "create_chunks t = create_chunks (normalize_ws t)"
proof -
  have "strip (replace_newlines (normalize_ws t)) = strip (replace_newlines t)"
    using normalize_idem [of t] by (simp only: normalize_ws_def)
  then show ?thesis by (simp only: create_chunks_def)
qed

text \<open>
  Claim C4. For every text whose normalised length exceeds \<open>CHUNK_SIZE\<close>, the first chunk
  followed by every later chunk without its first \<open>CHUNK_OVERLAP\<close> characters is the
  normalised text again.
\<close>

theorem C4_chunks_reassemble:
  assumes "CHUNK_SIZE < length (normalize_ws t)"
  shows "hd (create_chunks t) @ concat (map (drop CHUNK_OVERLAP) (tl (create_chunks t))) =
         normalize_ws t"
proof -
  let ?n = "normalize_ws t"
  have pos: "?n \<noteq> []" using assms by (rule long_nonempty)
  have "create_chunks t =
      py_slice ?n 0 CHUNK_SIZE # chunk_loop ?n (CHUNK_SIZE - CHUNK_OVERLAP) []"
    using assms pos by (simp add: create_chunks_long chunk_loop_unfold [of ?n 0])
  then have "hd (create_chunks t) @ concat (map (drop CHUNK_OVERLAP) (tl (create_chunks t))) =
     take CHUNK_SIZE ?n @ drop (CHUNK_SIZE - CHUNK_OVERLAP + CHUNK_OVERLAP) ?n"
    by (simp add: concat_drop_chunks py_slice_def)
  then show ?thesis using overlap_le_size by simp
qed

theorem C4_witness:
  "CHUNK_SIZE < length (normalize_ws (replicate 2500 65)) \<and>
   hd (create_chunks (replicate 2500 65)) @
     concat (map (drop CHUNK_OVERLAP) (tl (create_chunks (replicate 2500 65)))) =
   normalize_ws (replicate 2500 65)"
proof -
  have n: "normalize_ws (replicate 2500 65) = replicate 2500 65"
    using not_space_A by (rule normalize_replicate)
  have l: "CHUNK_SIZE < length (normalize_ws (replicate 2500 65))"
    by (simp add: n CHUNK_SIZE_def)
  show ?thesis
    using l C4_chunks_reassemble [OF l] by simp
qed

text \<open>
  Claim C5. For every text whose normalised length exceeds \<open>CHUNK_SIZE\<close> and every pair of
  consecutive chunks \<open>i\<close>, \<open>i + 1\<close>: if the pair is not the final one, or the length of
  the text is a multiple of the step, or chunk \<open>i + 1\<close> has at least \<open>CHUNK_OVERLAP\<close>
  characters, then chunk \<open>i\<close> has \<open>CHUNK_SIZE\<close> characters and its last \<open>CHUNK_OVERLAP\<close>
  characters (Python's \<open>chunk[-CHUNK_OVERLAP:]\<close>) are the first \<open>CHUNK_OVERLAP\<close> characters
  of chunk \<open>i + 1\<close>, a region of exactly \<open>CHUNK_OVERLAP\<close> characters. Only the final pair
  can overlap by less: that is when the last chunk is shorter than \<open>CHUNK_OVERLAP\<close>, and
  then the whole last chunk, which is not empty, is the end of the chunk before it from
  one step on.
\<close>

theorem C5_consecutive_overlap:
  assumes long: "CHUNK_SIZE < length (normalize_ws t)"
    and pair: "Suc i < length (create_chunks t)"
  shows
    "(Suc (Suc i) < length (create_chunks t) \<or>
      length (normalize_ws t) mod (CHUNK_SIZE - CHUNK_OVERLAP) = 0 \<or>
      CHUNK_OVERLAP \<le> length (create_chunks t ! Suc i) \<longrightarrow>
        length (create_chunks t ! i) = CHUNK_SIZE \<and>
        CHUNK_OVERLAP \<le> length (create_chunks t ! Suc i) \<and>
        drop (length (create_chunks t ! i) - CHUNK_OVERLAP) (create_chunks t ! i) =
          take CHUNK_OVERLAP (create_chunks t ! Suc i) \<and>
        length (take CHUNK_OVERLAP (create_chunks t ! Suc i)) = CHUNK_OVERLAP) \<and>
     (length (create_chunks t ! Suc i) < CHUNK_OVERLAP \<longrightarrow>
        Suc (Suc i) = length (create_chunks t) \<and>
        create_chunks t ! Suc i \<noteq> [] \<and>
        create_chunks t ! Suc i = drop (CHUNK_SIZE - CHUNK_OVERLAP) (create_chunks t ! i))"
proof -
  define n where "n = normalize_ws t"
  define step where "step = CHUNK_SIZE - CHUNK_OVERLAP"
  define a where "a = i * step"
  define b where "b = a + step"
  have size: "step + CHUNK_OVERLAP = CHUNK_SIZE"
    using overlap_le_size by (simp add: step_def)
  have ov: "CHUNK_OVERLAP \<le> step"
    using overlap_le_step by (simp add: step_def)
  have pos: "0 < step"
    using step_pos by (simp add: step_def)
  have cs: "create_chunks t = chunk_loop n 0 []"
    using long unfolding n_def by (rule create_chunks_long)
  have sb: "Suc i * step = b" and ssb: "Suc (Suc i) * step = b + step"
    by (simp_all add: a_def b_def)
  have b_lt: "b < length n"
    using pair chunk_loop_exists [of "Suc i" n 0] sb by (simp add: cs step_def)
  have next_chunk: "Suc (Suc i) < length (create_chunks t) \<longleftrightarrow> b + step < length n"
  proof -
    have "Suc (Suc i) < length (chunk_loop n 0 []) \<longleftrightarrow>
        0 + Suc (Suc i) * (CHUNK_SIZE - CHUNK_OVERLAP) < length n"
      by (rule chunk_loop_exists)
    moreover have "0 + Suc (Suc i) * (CHUNK_SIZE - CHUNK_OVERLAP) = b + step"
      using ssb by (simp add: step_def)
    ultimately show ?thesis by (simp only: cs)
  qed
  have "create_chunks t ! i = py_slice n a (a + CHUNK_SIZE)"
    using pair chunk_loop_nth [of i n 0] by (simp add: cs a_def step_def)
  then have ci: "create_chunks t ! i = take CHUNK_SIZE (drop a n)"
    by (simp add: py_slice_def)
  have "create_chunks t ! Suc i = py_slice n b (b + CHUNK_SIZE)"
    using pair chunk_loop_nth [of "Suc i" n 0] sb by (simp add: cs step_def)
  then have cj: "create_chunks t ! Suc i = take CHUNK_SIZE (drop b n)"
    by (simp add: py_slice_def)
  have li: "length (create_chunks t ! i) = min (length n - a) CHUNK_SIZE"
    by (simp add: ci)
  have lj: "length (create_chunks t ! Suc i) = min (length n - b) CHUNK_SIZE"
    by (simp add: cj)
  have "drop step (take CHUNK_SIZE (drop a n)) = take (CHUNK_SIZE - step) (drop (step + a) n)"
    by (simp add: drop_take)
  moreover have "CHUNK_SIZE - step = CHUNK_OVERLAP" and "step + a = b"
    using size by (simp_all add: b_def)
  ultimately have tail: "drop step (create_chunks t ! i) = take CHUNK_OVERLAP (drop b n)"
    by (simp add: ci)
  have head: "take CHUNK_OVERLAP (create_chunks t ! Suc i) = take CHUNK_OVERLAP (drop b n)"
    using size by (simp add: cj min_def)
  have full: "length (create_chunks t ! i) = CHUNK_SIZE \<and>
      CHUNK_OVERLAP \<le> length (create_chunks t ! Suc i) \<and>
      drop (length (create_chunks t ! i) - CHUNK_OVERLAP) (create_chunks t ! i) =
        take CHUNK_OVERLAP (create_chunks t ! Suc i) \<and>
      length (take CHUNK_OVERLAP (create_chunks t ! Suc i)) = CHUNK_OVERLAP"
    if enough: "CHUNK_OVERLAP \<le> length (create_chunks t ! Suc i)"
  proof -
    have "CHUNK_OVERLAP \<le> length n - b"
      using enough lj by arith
    then have lfull: "length (create_chunks t ! i) = CHUNK_SIZE"
      using li b_lt size unfolding b_def by arith
    then have "length (create_chunks t ! i) - CHUNK_OVERLAP = step"
      using size by arith
    then have "drop (length (create_chunks t ! i) - CHUNK_OVERLAP) (create_chunks t ! i) =
        take CHUNK_OVERLAP (create_chunks t ! Suc i)"
      using tail head by simp
    moreover have "length (take CHUNK_OVERLAP (create_chunks t ! Suc i)) = CHUNK_OVERLAP"
      using enough by simp
    ultimately show ?thesis using lfull enough by simp
  qed
  have enough1: "CHUNK_OVERLAP \<le> length (create_chunks t ! Suc i)"
    if "Suc (Suc i) < length (create_chunks t)"
  proof -
    have "b + step < length n"
      using that next_chunk by simp
    then show ?thesis
      using lj ov size by arith
  qed
  have enough2: "CHUNK_OVERLAP \<le> length (create_chunks t ! Suc i)"
    if multiple: "length (normalize_ws t) mod (CHUNK_SIZE - CHUNK_OVERLAP) = 0"
  proof -
    have "step dvd length n"
      using multiple by (simp add: n_def step_def mod_eq_0_iff_dvd)
    then obtain q where q: "length n = step * q" ..
    have "step * Suc i < step * q"
      using b_lt sb q by (simp add: mult.commute)
    then have "Suc i < q"
      by (simp only: mult_less_cancel1)
    then have "Suc (Suc i) \<le> q" by simp
    then have "step * Suc (Suc i) \<le> step * q"
      by (rule mult_le_mono2)
    then have "b + step \<le> length n"
      using q ssb by (simp add: mult.commute)
    then show ?thesis
      using lj ov size by arith
  qed
  have short: "Suc (Suc i) = length (create_chunks t) \<and>
      create_chunks t ! Suc i \<noteq> [] \<and>
      create_chunks t ! Suc i = drop (CHUNK_SIZE - CHUNK_OVERLAP) (create_chunks t ! i)"
    if less: "length (create_chunks t ! Suc i) < CHUNK_OVERLAP"
  proof -
    have rest: "length n - b < CHUNK_OVERLAP"
      using less lj size by arith
    then have "\<not> b + step < length n"
      using ov by arith
    then have last: "Suc (Suc i) = length (create_chunks t)"
      using next_chunk pair by arith
    have "0 < length (create_chunks t ! Suc i)"
      using lj b_lt pos size by arith
    then have nonempty: "create_chunks t ! Suc i \<noteq> []"
      by simp
    have "length (drop b n) \<le> CHUNK_OVERLAP" and "length (drop b n) \<le> CHUNK_SIZE"
      using rest size by simp_all
    then have "take CHUNK_OVERLAP (drop b n) = drop b n"
      and "take CHUNK_SIZE (drop b n) = drop b n"
      by simp_all
    then have "create_chunks t ! Suc i = drop step (create_chunks t ! i)"
      using tail cj by simp
    then show ?thesis using last nonempty by (simp add: step_def)
  qed
  show ?thesis
  proof (rule conjI)
    show "Suc (Suc i) < length (create_chunks t) \<or>
      length (normalize_ws t) mod (CHUNK_SIZE - CHUNK_OVERLAP) = 0 \<or>
      CHUNK_OVERLAP \<le> length (create_chunks t ! Suc i) \<longrightarrow>
        length (create_chunks t ! i) = CHUNK_SIZE \<and>
        CHUNK_OVERLAP \<le> length (create_chunks t ! Suc i) \<and>
        drop (length (create_chunks t ! i) - CHUNK_OVERLAP) (create_chunks t ! i) =
          take CHUNK_OVERLAP (create_chunks t ! Suc i) \<and>
        length (take CHUNK_OVERLAP (create_chunks t ! Suc i)) = CHUNK_OVERLAP"
    proof (rule impI)
      assume "Suc (Suc i) < length (create_chunks t) \<or>
        length (normalize_ws t) mod (CHUNK_SIZE - CHUNK_OVERLAP) = 0 \<or>
        CHUNK_OVERLAP \<le> length (create_chunks t ! Suc i)"
      then have "CHUNK_OVERLAP \<le> length (create_chunks t ! Suc i)"
        by (elim disjE) (simp_all add: enough1 enough2)
      then show "length (create_chunks t ! i) = CHUNK_SIZE \<and>
        CHUNK_OVERLAP \<le> length (create_chunks t ! Suc i) \<and>
        drop (length (create_chunks t ! i) - CHUNK_OVERLAP) (create_chunks t ! i) =
          take CHUNK_OVERLAP (create_chunks t ! Suc i) \<and>
        length (take CHUNK_OVERLAP (create_chunks t ! Suc i)) = CHUNK_OVERLAP"
        by (rule full)
    qed
  next
    show "length (create_chunks t ! Suc i) < CHUNK_OVERLAP \<longrightarrow>
        Suc (Suc i) = length (create_chunks t) \<and>
        create_chunks t ! Suc i \<noteq> [] \<and>
        create_chunks t ! Suc i = drop (CHUNK_SIZE - CHUNK_OVERLAP) (create_chunks t ! i)"
    proof (rule impI)
      assume "length (create_chunks t ! Suc i) < CHUNK_OVERLAP"
      then show "Suc (Suc i) = length (create_chunks t) \<and>
        create_chunks t ! Suc i \<noteq> [] \<and>
        create_chunks t ! Suc i = drop (CHUNK_SIZE - CHUNK_OVERLAP) (create_chunks t ! i)"
        by (rule short)
    qed
  qed
qed

text \<open>
  Instances on texts of varied characters: of 2500 characters, a pair that is not the
  final one (\<open>i = 1\<close>) and the final pair (\<open>i = 2\<close>), whose last chunk has 100
  characters; of 1600 characters, a multiple of the step, the only pair (\<open>i = 0\<close>).
\<close>

theorem C5_witness:
  "CHUNK_SIZE < length (normalize_ws (varied_text 2500)) \<and>
   Suc (Suc 1) < length (create_chunks (varied_text 2500)) \<and>
   length (create_chunks (varied_text 2500) ! 1) = CHUNK_SIZE \<and>
   drop (length (create_chunks (varied_text 2500) ! 1) - CHUNK_OVERLAP)
     (create_chunks (varied_text 2500) ! 1) =
   take CHUNK_OVERLAP (create_chunks (varied_text 2500) ! Suc 1) \<and>
   length (take CHUNK_OVERLAP (create_chunks (varied_text 2500) ! Suc 1)) = CHUNK_OVERLAP \<and>
   Suc 2 < length (create_chunks (varied_text 2500)) \<and>
   length (create_chunks (varied_text 2500) ! Suc 2) < CHUNK_OVERLAP \<and>
   Suc (Suc 2) = length (create_chunks (varied_text 2500)) \<and>
   create_chunks (varied_text 2500) ! Suc 2 =
     drop (CHUNK_SIZE - CHUNK_OVERLAP) (create_chunks (varied_text 2500) ! 2) \<and>
   CHUNK_SIZE < length (normalize_ws (varied_text 1600)) \<and>
   Suc 0 < length (create_chunks (varied_text 1600)) \<and>
   length (normalize_ws (varied_text 1600)) mod (CHUNK_SIZE - CHUNK_OVERLAP) = 0 \<and>
   length (create_chunks (varied_text 1600) ! 0) = CHUNK_SIZE \<and>
   drop (length (create_chunks (varied_text 1600) ! 0) - CHUNK_OVERLAP)
     (create_chunks (varied_text 1600) ! 0) =
   take CHUNK_OVERLAP (create_chunks (varied_text 1600) ! Suc 0)"
proof -
  have n: "length (normalize_ws (varied_text 2500)) = 2500"
    by (simp add: normalize_varied_text length_varied_text)
  have l: "CHUNK_SIZE < length (normalize_ws (varied_text 2500))"
    by (simp add: n CHUNK_SIZE_def)
  have len: "length (create_chunks (varied_text 2500)) = 4"
    by (simp add: create_chunks_2500 [OF n])
  have p1: "Suc 1 < length (create_chunks (varied_text 2500))"
    and p2: "Suc 2 < length (create_chunks (varied_text 2500))"
    and inner: "Suc (Suc 1) < length (create_chunks (varied_text 2500))"
    by (simp_all add: len)
  have last: "length (create_chunks (varied_text 2500) ! Suc 2) < CHUNK_OVERLAP"
    by (simp add: create_chunks_2500 [OF n] py_slice_def n CHUNK_OVERLAP_def)
  have n': "length (normalize_ws (varied_text 1600)) = 1600"
    by (simp add: normalize_varied_text length_varied_text)
  have l': "CHUNK_SIZE < length (normalize_ws (varied_text 1600))"
    by (simp add: n' CHUNK_SIZE_def)
  have p': "Suc 0 < length (create_chunks (varied_text 1600))"
    by (simp add: create_chunks_1600 [OF n'])
  have m: "length (normalize_ws (varied_text 1600)) mod (CHUNK_SIZE - CHUNK_OVERLAP) = 0"
    by (simp add: n' CHUNK_SIZE_def CHUNK_OVERLAP_def)
  note first = C5_consecutive_overlap [OF l p1]
  note final = C5_consecutive_overlap [OF l p2]
  note only = C5_consecutive_overlap [OF l' p']
  have a: "length (create_chunks (varied_text 2500) ! 1) = CHUNK_SIZE \<and>
      drop (length (create_chunks (varied_text 2500) ! 1) - CHUNK_OVERLAP)
        (create_chunks (varied_text 2500) ! 1) =
      take CHUNK_OVERLAP (create_chunks (varied_text 2500) ! Suc 1) \<and>
      length (take CHUNK_OVERLAP (create_chunks (varied_text 2500) ! Suc 1)) = CHUNK_OVERLAP"
    using first inner by blast
  have b: "Suc (Suc 2) = length (create_chunks (varied_text 2500)) \<and>
      create_chunks (varied_text 2500) ! Suc 2 =
        drop (CHUNK_SIZE - CHUNK_OVERLAP) (create_chunks (varied_text 2500) ! 2)"
    using final last by blast
  have c: "length (create_chunks (varied_text 1600) ! 0) = CHUNK_SIZE \<and>
      drop (length (create_chunks (varied_text 1600) ! 0) - CHUNK_OVERLAP)
        (create_chunks (varied_text 1600) ! 0) =
      take CHUNK_OVERLAP (create_chunks (varied_text 1600) ! Suc 0)"
    using only m by blast
  show ?thesis
    using l inner a p2 last b l' p' m c by blast
qed

section \<open>Properties of the store operations\<close>

lemma rows_kept_iff:
  "rows_kept t t' \<longleftrightarrow>
     length (rows t) \<le> length (rows t') \<and>
     (\<forall>k < length (rows t). embedding_kept (rows t ! k) (rows t' ! k))"
  by (auto simp add: rows_kept_def list_all2_conv_all_nth)

lemma rows_kept_refl: "rows_kept t t"
  by (simp add: rows_kept_iff embedding_kept_def)

lemma rows_kept_trans: "rows_kept a b \<Longrightarrow> rows_kept b c \<Longrightarrow> rows_kept a c"
  unfolding rows_kept_iff embedding_kept_def
  by (metis (no_types, lifting) le_trans less_le_trans)

lemma rows_kept_append: "rows t' = rows t @ new \<Longrightarrow> rows_kept t t'"
  by (simp add: rows_kept_iff embedding_kept_def nth_append)

lemma rows_insert_chunk:
  "rows (insert_chunk tbl m idx chunk) =
     rows tbl @ [\<lparr>row_id = Suc (max_id tbl), meta = m, chunk_index = idx, content = chunk,
                  embedding = None\<rparr>]"
  by (simp add: insert_chunk_def)

text \<open>What the insertion loop appends: one row for each chunk, in order, all without embedding.\<close>

lemma rows_insert_chunks:
  "\<exists>new. rows (insert_chunks m ecs tbl) = rows tbl @ new \<and>
     map chunk_index new = map fst ecs \<and> map content new = map snd ecs \<and>
     (\<forall>r \<in> set new. meta r = m \<and> embedding r = None)"
proof (induction ecs arbitrary: tbl)
  case Nil
  show ?case by simp
next
  case (Cons ec ecs)
  obtain idx chunk where ec: "ec = (idx, chunk)" by (cases ec)
  let ?r = "\<lparr>row_id = Suc (max_id tbl), meta = m, chunk_index = idx, content = chunk,
             embedding = None\<rparr>"
  obtain new where new: "rows (insert_chunks m ecs (insert_chunk tbl m idx chunk)) =
        rows (insert_chunk tbl m idx chunk) @ new"
      "map chunk_index new = map fst ecs" "map content new = map snd ecs"
      "\<forall>r \<in> set new. meta r = m \<and> embedding r = None"
    using Cons.IH [of "insert_chunk tbl m idx chunk"] by blast
  have "rows (insert_chunks m (ec # ecs) tbl) = rows tbl @ (?r # new)"
    using new(1) by (simp add: ec rows_insert_chunk)
  moreover have "map chunk_index (?r # new) = map fst (ec # ecs)"
    using new(2) by (simp add: ec)
  moreover have "map content (?r # new) = map snd (ec # ecs)"
    using new(3) by (simp add: ec)
  moreover have "\<forall>r \<in> set (?r # new). meta r = m \<and> embedding r = None"
    using new(4) by simp
  ultimately show ?case by blast
qed

lemma bind_parameters_None:
  "bind_parameters xs = None \<longleftrightarrow> (\<forall>x \<in> set xs. bind_param x = None)"
  by (induction xs) (auto split: option.splits)

lemma insert_post_chunks_ok:
  assumes vals: "discourse_values post = Inr v"
    and bound: "\<forall>(idx, chunk) \<in> set ecs. bind_parameters (parameter_tuple v idx chunk) = None"
  shows "insert_post_chunks post ecs tbl = Inr (insert_chunks (stored_meta v) ecs tbl)"
  using bound by (induction ecs arbitrary: tbl) (auto simp add: vals)

lemma insert_post_chunks_rows:
  "insert_post_chunks post ecs tbl = Inr tbl' \<Longrightarrow>
   \<exists>new. rows tbl' = rows tbl @ new \<and> (\<forall>r \<in> set new. embedding r = None)"
proof (induction ecs arbitrary: tbl)
  case Nil
  then show ?case by simp
next
  case (Cons ec ecs)
  obtain idx chunk where ec: "ec = (idx, chunk)" by (cases ec)
  from Cons.prems obtain v where
    rest: "insert_post_chunks post ecs (insert_chunk tbl (stored_meta v) idx chunk) = Inr tbl'"
    by (auto simp add: ec split: sum.splits option.splits)
  obtain new where new: "rows tbl' = rows (insert_chunk tbl (stored_meta v) idx chunk) @ new"
      "\<forall>r \<in> set new. embedding r = None"
    using Cons.IH [OF rest] by blast
  let ?r = "\<lparr>row_id = Suc (max_id tbl), meta = stored_meta v, chunk_index = idx,
             content = chunk, embedding = None\<rparr>"
  have "rows tbl' = rows tbl @ (?r # new)"
    using new(1) by (simp add: rows_insert_chunk)
  moreover have "\<forall>r \<in> set (?r # new). embedding r = None"
    using new(2) by simp
  ultimately show ?case by blast
qed

lemma discourse_loop_rows:
  "discourse_loop posts tbl = Inr tbl' \<Longrightarrow>
   \<exists>new. rows tbl' = rows tbl @ new \<and> (\<forall>r \<in> set new. embedding r = None)"
proof (induction posts arbitrary: tbl)
  case Nil
  then show ?case by simp
next
  case (Cons post posts)
  from Cons.prems obtain clean_text tbl1 where
    step: "insert_post_chunks post (enumerate 0 (create_chunks clean_text)) tbl = Inr tbl1"
    and rest: "discourse_loop posts tbl1 = Inr tbl'"
    by (auto split: sum.splits)
  obtain new1 where new1: "rows tbl1 = rows tbl @ new1" "\<forall>r \<in> set new1. embedding r = None"
    using insert_post_chunks_rows [OF step] by blast
  obtain new2 where new2: "rows tbl' = rows tbl1 @ new2" "\<forall>r \<in> set new2. embedding r = None"
    using Cons.IH [OF rest] by blast
  have "rows tbl' = rows tbl @ (new1 @ new2)"
    using new1(1) new2(1) by simp
  moreover have "\<forall>r \<in> set (new1 @ new2). embedding r = None"
    using new1(2) new2(2) by auto
  ultimately show ?case by blast
qed

lemma markdown_loop_rows:
  "markdown_loop files tbl = Inr tbl' \<Longrightarrow>
   \<exists>new. rows tbl' = rows tbl @ new \<and> (\<forall>r \<in> set new. embedding r = None)"
proof (induction files tbl rule: markdown_loop.induct)
  case (1 tbl)
  then show ?case by simp
next
  case (2 filename doc files tbl)
  show ?case
  proof (cases "endswith filename (str_of ''.md'')")
    case False
    then show ?thesis using 2 by simp
  next
    case True
    from True "2.prems" obtain m body where
      parse: "parse_frontmatter doc = Inr (m, body)"
      and rest: "markdown_loop files (insert_chunks m (enumerate 0 (create_chunks body)) tbl) = Inr tbl'"
      by (auto split: sum.splits)
    let ?t1 = "insert_chunks m (enumerate 0 (create_chunks body)) tbl"
    obtain new1 where new1: "rows ?t1 = rows tbl @ new1" "\<forall>r \<in> set new1. embedding r = None"
      using rows_insert_chunks [of m "enumerate 0 (create_chunks body)" tbl] by blast
    obtain new2 where new2: "rows tbl' = rows ?t1 @ new2" "\<forall>r \<in> set new2. embedding r = None"
      using "2.IH"(2) [OF _ parse refl rest] True by blast
    have "rows tbl' = rows tbl @ (new1 @ new2)"
      using new1(1) new2(1) by simp
    moreover have "\<forall>r \<in> set (new1 @ new2). embedding r = None"
      using new1(2) new2(2) by auto
    ultimately show ?thesis by blast
  qed
qed

lemma process_discourse_rows:
  assumes "process_discourse posts db = Inr db'"
  shows "(\<exists>new. rows (discourse_chunks db') = rows (discourse_chunks db) @ new \<and>
            (\<forall>r \<in> set new. embedding r = None)) \<and>
         markdown_chunks db' = markdown_chunks db"
proof -
  from assms obtain tbl where loop: "discourse_loop posts (discourse_chunks db) = Inr tbl"
    and db': "db' = db\<lparr>discourse_chunks := tbl\<rparr>"
    by (auto simp add: process_discourse_def split: sum.splits)
  show ?thesis
    using discourse_loop_rows [OF loop] by (simp add: db')
qed

lemma process_markdown_rows:
  assumes "process_markdown files db = Inr db'"
  shows "(\<exists>new. rows (markdown_chunks db') = rows (markdown_chunks db) @ new \<and>
            (\<forall>r \<in> set new. embedding r = None)) \<and>
         discourse_chunks db' = discourse_chunks db"
proof -
  from assms obtain tbl where loop: "markdown_loop files (markdown_chunks db) = Inr tbl"
    and db': "db' = db\<lparr>markdown_chunks := tbl\<rparr>"
    by (auto simp add: process_markdown_def split: sum.splits)
  show ?thesis
    using markdown_loop_rows [OF loop] by (simp add: db')
qed

section \<open>Properties of the update and of the backfill loop\<close>

lemma set_embedding_kept: "set_embedding tbl i e = Inr tbl' \<Longrightarrow> rows_kept tbl tbl'"
  by (auto simp add: set_embedding_def rows_kept_iff embedding_kept_def)

lemma set_embedding_sets:
  "set_embedding tbl i e = Inr tbl' \<Longrightarrow> r \<in> set (rows tbl') \<Longrightarrow> row_id r = i \<Longrightarrow>
   embedding r \<noteq> None"
proof -
  assume upd: "set_embedding tbl i e = Inr tbl'" and r: "r \<in> set (rows tbl')"
    and i: "row_id r = i"
  have "rows tbl' = map (\<lambda>r. if row_id r = i then r\<lparr>embedding := Some e\<rparr> else r) (rows tbl)"
    using upd by (auto simp add: set_embedding_def)
  then have "r \<in> (\<lambda>r. if row_id r = i then r\<lparr>embedding := Some e\<rparr> else r) ` set (rows tbl)"
    using r by simp
  then obtain r0 where r0: "r = (if row_id r0 = i then r0\<lparr>embedding := Some e\<rparr> else r0)"
    by (rule imageE)
  show "embedding r \<noteq> None"
  proof (cases "row_id r0 = i")
    case True
    then have "r = r0\<lparr>embedding := Some e\<rparr>" using r0 by simp
    then show ?thesis by simp
  next
    case False
    then have "r = r0" using r0 by simp
    then show ?thesis using False i by simp
  qed
qed

lemma set_embedding_same_length:
  "set_embedding tbl i e = Inr tbl' \<Longrightarrow> length (rows tbl') = length (rows tbl)"
  by (auto simp add: set_embedding_def)

lemma embed_rows_kept: "rows_kept tbl (fst (embed_rows svc dataset tbl n))"
proof (induction dataset arbitrary: tbl n)
  case Nil
  show ?case by (simp add: rows_kept_refl)
next
  case (Cons row dataset)
  obtain i c where row: "row = (i, c)" by (cases row)
  show ?case
  proof (cases "svc n c")
    case (Inl e)
    then show ?thesis by (simp add: row rows_kept_refl)
  next
    case (Inr emb)
    obtain tbl1 where upd: "set_embedding tbl i emb = Inr tbl1"
      by (simp add: set_embedding_def)
    have first: "rows_kept tbl tbl1" using upd by (rule set_embedding_kept)
    have rest: "rows_kept tbl1 (fst (embed_rows svc dataset tbl1 (Suc n)))"
      by (rule Cons.IH)
    have "embed_rows svc (row # dataset) tbl n = embed_rows svc dataset tbl1 (Suc n)"
      by (simp add: row Inr upd)
    then show ?thesis
      using rows_kept_trans [OF first rest] by simp
  qed
qed

lemma embed_rows_same_length:
  "length (rows (fst (embed_rows svc dataset tbl n))) = length (rows tbl)"
proof (induction dataset arbitrary: tbl n)
  case Nil
  show ?case by simp
next
  case (Cons row dataset)
  obtain i c where row: "row = (i, c)" by (cases row)
  show ?case
  proof (cases "svc n c")
    case (Inl e)
    then show ?thesis by (simp add: row)
  next
    case (Inr emb)
    obtain tbl1 where upd: "set_embedding tbl i emb = Inr tbl1"
      by (simp add: set_embedding_def)
    show ?thesis
      using Cons.IH [of tbl1 "Suc n"] set_embedding_same_length [OF upd]
      by (simp add: row Inr upd)
  qed
qed

text \<open>After a loop that ended without exception, every row named in the data set has an embedding.\<close>

lemma embed_rows_done:
  "embed_rows svc dataset tbl n = (tbl', n', None) \<Longrightarrow>
   r \<in> set (rows tbl') \<Longrightarrow> row_id r \<in> fst ` set dataset \<Longrightarrow> embedding r \<noteq> None"
proof (induction dataset arbitrary: tbl n)
  case Nil
  then show ?case by simp
next
  case (Cons row dataset)
  obtain i c where row: "row = (i, c)" by (cases row)
  from Cons.prems(1) obtain emb where svc: "svc n c = Inr emb"
    by (cases "svc n c") (simp_all add: row)
  obtain tbl1 where upd: "set_embedding tbl i emb = Inr tbl1"
    by (simp add: set_embedding_def)
  have rest: "embed_rows svc dataset tbl1 (Suc n) = (tbl', n', None)"
    using Cons.prems(1) by (simp add: row svc upd)
  show ?case
  proof (cases "row_id r \<in> fst ` set dataset")
    case True
    then show ?thesis using Cons.IH [OF rest Cons.prems(2)] by simp
  next
    case False
    then have id: "row_id r = i" using Cons.prems(3) by (simp add: row)
    obtain k where k: "k < length (rows tbl')" "rows tbl' ! k = r"
      using Cons.prems(2) by (auto simp add: in_set_conv_nth)
    have kept: "rows_kept tbl1 tbl'"
      using embed_rows_kept [of tbl1 svc dataset "Suc n"] by (simp add: rest)
    have len: "length (rows tbl') = length (rows tbl1)"
      using embed_rows_same_length [of svc dataset tbl1 "Suc n"] by (simp add: rest)
    have rel: "embedding_kept (rows tbl1 ! k) r"
      using kept k len by (auto simp add: rows_kept_iff)
    then have "row_id (rows tbl1 ! k) = i"
      using id by (simp add: embedding_kept_def)
    moreover have "rows tbl1 ! k \<in> set (rows tbl1)"
      using k(1) len by simp
    ultimately have "embedding (rows tbl1 ! k) \<noteq> None"
      using set_embedding_sets [OF upd] by blast
    then show ?thesis using rel by (simp add: embedding_kept_def)
  qed
qed

lemma fetch_unembedded_empty:
  "fetch_unembedded tbl = [] \<longleftrightarrow> (\<forall>r \<in> set (rows tbl). embedding r \<noteq> None)"
  by (auto simp add: fetch_unembedded_def filter_empty_conv)

lemma embed_rows_complete:
  assumes run: "embed_rows svc (fetch_unembedded tbl) tbl n = (tbl', n', None)"
  shows "fetch_unembedded tbl' = []"
proof -
  have kept: "rows_kept tbl tbl'"
    using embed_rows_kept [of tbl svc "fetch_unembedded tbl" n] by (simp add: run)
  have len: "length (rows tbl') = length (rows tbl)"
    using embed_rows_same_length [of svc "fetch_unembedded tbl" tbl n] by (simp add: run)
  have "embedding r \<noteq> None" if r: "r \<in> set (rows tbl')" for r
  proof -
    obtain k where k: "k < length (rows tbl')" "rows tbl' ! k = r"
      using r by (auto simp add: in_set_conv_nth)
    have rel: "embedding_kept (rows tbl ! k) r"
      using kept k len by (auto simp add: rows_kept_iff)
    show ?thesis
    proof (cases "embedding (rows tbl ! k)")
      case (Some e)
      then show ?thesis using rel by (simp add: embedding_kept_def)
    next
      case None
      have "rows tbl ! k \<in> set (rows tbl)" using k(1) len by simp
      then have "(row_id (rows tbl ! k), content (rows tbl ! k)) \<in> set (fetch_unembedded tbl)"
        using None by (auto simp add: fetch_unembedded_def)
      then have "row_id (rows tbl ! k) \<in> fst ` set (fetch_unembedded tbl)"
        by force
      then have "row_id r \<in> fst ` set (fetch_unembedded tbl)"
        using rel by (simp add: embedding_kept_def)
      then show ?thesis using embed_rows_done [OF run r] by simp
    qed
  qed
  then show ?thesis by (simp add: fetch_unembedded_empty)
qed

lemma generate_embeddings_cases:
  assumes "generate_embeddings svc db = (db', n, out)"
  obtains dt e where
      "embed_rows svc (fetch_unembedded (discourse_chunks db)) (discourse_chunks db) 0 = (dt, n, Some e)"
      "db' = db\<lparr>discourse_chunks := dt\<rparr>" "out = Some e"
  | dt n1 mt where
      "embed_rows svc (fetch_unembedded (discourse_chunks db)) (discourse_chunks db) 0 = (dt, n1, None)"
      "embed_rows svc (fetch_unembedded (markdown_chunks db)) (markdown_chunks db) n1 = (mt, n, out)"
      "db' = db\<lparr>discourse_chunks := dt, markdown_chunks := mt\<rparr>"
  using assms
  by (auto simp add: generate_embeddings_def Let_def split: prod.splits option.splits)

lemma generate_embeddings_kept:
  assumes "generate_embeddings svc db = (db', n, out)"
  shows "store_kept db db'"
  using assms
proof (cases rule: generate_embeddings_cases)
  case (1 dt e)
  have "rows_kept (discourse_chunks db) dt"
    using embed_rows_kept [of "discourse_chunks db" svc "fetch_unembedded (discourse_chunks db)" 0]
    by (simp add: 1)
  then show ?thesis by (simp add: store_kept_def 1 rows_kept_refl)
next
  case (2 dt n1 mt)
  have "rows_kept (discourse_chunks db) dt"
    using embed_rows_kept [of "discourse_chunks db" svc "fetch_unembedded (discourse_chunks db)" 0]
    by (simp add: 2)
  moreover have "rows_kept (markdown_chunks db) mt"
    using embed_rows_kept [of "markdown_chunks db" svc "fetch_unembedded (markdown_chunks db)" n1]
    by (simp add: 2)
  ultimately show ?thesis by (simp add: store_kept_def 2)
qed

section \<open>The ids of a table\<close>

lemma fold_max_ge: "a \<le> fold max xs a \<and> (\<forall>x \<in> set xs. x \<le> fold max xs (a::nat))"
proof (induction xs arbitrary: a)
  case Nil
  show ?case by simp
next
  case (Cons y ys)
  have "max y a \<le> fold max ys (max y a)" and "\<forall>x \<in> set ys. x \<le> fold max ys (max y a)"
    using Cons.IH [of "max y a"] by simp_all
  then show ?case by auto
qed

lemma row_id_le_max_id: "r \<in> set (rows tbl) \<Longrightarrow> row_id r \<le> max_id tbl"
  using fold_max_ge [of "seq tbl" "map row_id (rows tbl)"] by (simp add: max_id_def)

text \<open>The ids of a table stay distinct under insertion and under the update.\<close>

lemma distinct_insert_chunk:
  assumes "distinct (map row_id (rows tbl))"
  shows "distinct (map row_id (rows (insert_chunk tbl m idx chunk)))"
proof -
  have "Suc (max_id tbl) \<notin> row_id ` set (rows tbl)"
    using row_id_le_max_id [of _ tbl] by fastforce
  then show ?thesis
    using assms by (simp add: insert_chunk_def)
qed

lemma distinct_insert_chunks:
  "distinct (map row_id (rows tbl)) \<Longrightarrow>
   distinct (map row_id (rows (insert_chunks m ecs tbl)))"
proof (induction ecs arbitrary: tbl)
  case Nil
  then show ?case by simp
next
  case (Cons ec ecs)
  obtain idx chunk where ec: "ec = (idx, chunk)" by (cases ec)
  show ?case
    using Cons.IH [OF distinct_insert_chunk [OF Cons.prems, of m idx chunk]]
    by (simp add: ec)
qed

lemma distinct_set_embedding:
  "set_embedding tbl i e = Inr tbl' \<Longrightarrow> map row_id (rows tbl') = map row_id (rows tbl)"
  by (auto simp add: set_embedding_def)



section \<open>The claims about the store and the backfill\<close>




text \<open>
  Claim C6. After a run of the backfill that ended without exception, no row of either
  table is without embedding, and a second run on that store, with any behaviour of the
  service, makes no request (and changes nothing).
\<close>

theorem C6_backfill_completes:
  assumes run: "generate_embeddings svc db = (db', n, None)"
  shows "fetch_unembedded (discourse_chunks db') = [] \<and>
         fetch_unembedded (markdown_chunks db') = [] \<and>
         generate_embeddings svc' db' = (db', 0, None)"
  using run
proof (cases rule: generate_embeddings_cases)
  case (1 dt e)
  then show ?thesis by simp
next
  case (2 dt n1 mt)
  have d: "fetch_unembedded (discourse_chunks db') = []"
    using embed_rows_complete [OF 2(1)] by (simp add: 2)
  have m: "fetch_unembedded (markdown_chunks db') = []"
    using embed_rows_complete [OF 2(2)] by (simp add: 2)
  show ?thesis
    by (simp add: d m generate_embeddings_def)
qed

lemma demo_run:
  "generate_embeddings demo_service demo_store =
     (fst (generate_embeddings demo_service demo_store), 2, None)"
  by (simp add: generate_embeddings_def demo_store_def demo_table_def demo_service_def
      fetch_unembedded_def set_embedding_def)

theorem C6_witness:
  "generate_embeddings demo_service demo_store =
     (fst (generate_embeddings demo_service demo_store), 2, None) \<and>
   fetch_unembedded (discourse_chunks (fst (generate_embeddings demo_service demo_store))) = [] \<and>
   fetch_unembedded (markdown_chunks (fst (generate_embeddings demo_service demo_store))) = [] \<and>
   generate_embeddings demo_service (fst (generate_embeddings demo_service demo_store)) =
     (fst (generate_embeddings demo_service demo_store), 0, None)"
  using demo_run C6_backfill_completes [OF demo_run, of demo_service] by simp

text \<open>
  Claim C9. No operation clears an embedding: both ingestion functions only append rows,
  all with embedding \<open>None\<close>, and leave the other table alone; the backfill, however it
  ends, and the update it is made of keep every embedding that was set, and the update
  writes \<open>Some\<close> vector wherever it writes; \<open>create_db\<close> leaves an existing store as it is.
\<close>

theorem C9_embedding_never_cleared:
  "(process_discourse posts db = Inr db1 \<longrightarrow>
      store_kept db db1 \<and>
      (\<exists>new. rows (discourse_chunks db1) = rows (discourse_chunks db) @ new \<and>
         (\<forall>r \<in> set new. embedding r = None)) \<and>
      markdown_chunks db1 = markdown_chunks db) \<and>
   (process_markdown files db = Inr db2 \<longrightarrow>
      store_kept db db2 \<and>
      (\<exists>new. rows (markdown_chunks db2) = rows (markdown_chunks db) @ new \<and>
         (\<forall>r \<in> set new. embedding r = None)) \<and>
      discourse_chunks db2 = discourse_chunks db) \<and>
   (generate_embeddings svc db = (db3, n, out) \<longrightarrow> store_kept db db3) \<and>
   (set_embedding tbl i e = Inr tbl' \<longrightarrow>
      rows_kept tbl tbl' \<and> (\<forall>r \<in> set (rows tbl'). r \<in> set (rows tbl) \<or> embedding r = Some e)) \<and>
   create_db (Some db) = db"
proof (intro conjI impI)
  assume a: "process_discourse posts db = Inr db1"
  show ex: "\<exists>new. rows (discourse_chunks db1) = rows (discourse_chunks db) @ new \<and>
         (\<forall>r \<in> set new. embedding r = None)"
    and same: "markdown_chunks db1 = markdown_chunks db"
    using process_discourse_rows [OF a] by simp_all
  from ex same show "store_kept db db1"
    using rows_kept_append [of "discourse_chunks db1" "discourse_chunks db"]
    by (auto simp add: store_kept_def rows_kept_refl)
next
  assume a: "process_markdown files db = Inr db2"
  show ex: "\<exists>new. rows (markdown_chunks db2) = rows (markdown_chunks db) @ new \<and>
         (\<forall>r \<in> set new. embedding r = None)"
    and same: "discourse_chunks db2 = discourse_chunks db"
    using process_markdown_rows [OF a] by simp_all
  from ex same show "store_kept db db2"
    using rows_kept_append [of "markdown_chunks db2" "markdown_chunks db"]
    by (auto simp add: store_kept_def rows_kept_refl)
next
  assume "generate_embeddings svc db = (db3, n, out)"
  then show "store_kept db db3" by (rule generate_embeddings_kept)
next
  assume a: "set_embedding tbl i e = Inr tbl'"
  then show "rows_kept tbl tbl'" by (rule set_embedding_kept)
  have rows': "rows tbl' = map (\<lambda>r. if row_id r = i then r\<lparr>embedding := Some e\<rparr> else r) (rows tbl)"
    using a by (auto simp add: set_embedding_def)
  show "\<forall>r \<in> set (rows tbl'). r \<in> set (rows tbl) \<or> embedding r = Some e"
  proof
    fix r assume "r \<in> set (rows tbl')"
    then have "r \<in> (\<lambda>r. if row_id r = i then r\<lparr>embedding := Some e\<rparr> else r) ` set (rows tbl)"
      by (simp add: rows')
    then obtain r0 where r0: "r0 \<in> set (rows tbl)"
        "r = (if row_id r0 = i then r0\<lparr>embedding := Some e\<rparr> else r0)"
      by (rule imageE)
    show "r \<in> set (rows tbl) \<or> embedding r = Some e"
      using r0 by (cases "row_id r0 = i") simp_all
  qed
next
  show "create_db (Some db) = db" by simp
qed

lemma demo_discourse:
  "\<exists>db'. process_discourse [demo_post] demo_store = Inr db'"
  by (simp add: process_discourse_def getitem_def demo_post_def discourse_values_def
      parameter_tuple_def has_surrogate_def
      create_chunks_def CHUNK_SIZE_def str_of_def strip_def replace_newlines_def py_isspace_def)

lemma demo_markdown:
  "\<exists>db'. process_markdown [(str_of ''a.md'', str_of ''body'')] demo_store = Inr db'"
  by (simp add: process_markdown_def endswith_def parse_frontmatter_def match_frontmatter_def
      str_of_def suffix_def)

theorem C9_witness:
  "(case process_discourse [demo_post] demo_store of
      Inl e \<Rightarrow> False | Inr db' \<Rightarrow> store_kept demo_store db') \<and>
   (case process_markdown [(str_of ''a.md'', str_of ''body'')] demo_store of
      Inl e \<Rightarrow> False | Inr db' \<Rightarrow> store_kept demo_store db') \<and>
   store_kept demo_store (fst (generate_embeddings demo_service demo_store)) \<and>
   (case set_embedding demo_table 2 [91, 93, 93] of
      Inl e \<Rightarrow> False | Inr tbl' \<Rightarrow> rows_kept demo_table tbl') \<and>
   embedding (rows (markdown_chunks demo_store) ! 1) \<noteq> None"
proof -
  obtain db1 where db1: "process_discourse [demo_post] demo_store = Inr db1"
    using demo_discourse by blast
  obtain db2 where db2: "process_markdown [(str_of ''a.md'', str_of ''body'')] demo_store = Inr db2"
    using demo_markdown by blast
  obtain tbl' where t: "set_embedding demo_table 2 [91, 93, 93] = Inr tbl'"
    by (simp add: set_embedding_def)
  have run: "generate_embeddings demo_service demo_store =
     (fst (generate_embeddings demo_service demo_store), fst (snd (generate_embeddings demo_service demo_store)), snd (snd (generate_embeddings demo_service demo_store)))"
    by simp
  have e: "embedding (rows (markdown_chunks demo_store) ! 1) \<noteq> None"
    by (simp add: demo_store_def demo_table_def)
  show ?thesis
    using C9_embedding_never_cleared [of "[demo_post]" demo_store db1
        "[(str_of ''a.md'', str_of ''body'')]" db2 demo_service
        "fst (generate_embeddings demo_service demo_store)"
        "fst (snd (generate_embeddings demo_service demo_store))"
        "snd (snd (generate_embeddings demo_service demo_store))" demo_table 2 "[91, 93, 93]" tbl']
      db1 db2 t run e
    by simp
qed

section \<open>The claims about ingestion\<close>

lemma discourse_values_post_id:
  "discourse_values post = Inr v \<Longrightarrow> post ''post_id'' = Some (post_id v)"
  by (auto simp add: discourse_values_def getitem_def split: sum.splits option.splits)

text \<open>Normalising and slicing a string bring in no surrogate.\<close>

lemma has_surrogate_iff: "has_surrogate s \<longleftrightarrow> (\<exists>c \<in> set s. 55296 \<le> c \<and> c \<le> 57343)"
  by (simp add: has_surrogate_def list_ex_iff)

lemma set_strip: "set (strip s) \<subseteq> set s"
proof
  fix c assume "c \<in> set (strip s)"
  then have "c \<in> set (dropWhile py_isspace (rev (dropWhile py_isspace s)))"
    by (simp add: strip_def)
  then have "c \<in> set (rev (dropWhile py_isspace s))"
    by (rule set_dropWhileD)
  then have "c \<in> set (dropWhile py_isspace s)" by simp
  then show "c \<in> set s" by (rule set_dropWhileD)
qed

lemma no_surrogate_normalize:
  assumes "\<not> has_surrogate s"
  shows "\<not> has_surrogate (normalize_ws s)"
proof
  assume "has_surrogate (normalize_ws s)"
  then obtain c where c: "c \<in> set (normalize_ws s)" "55296 \<le> c" "c \<le> 57343"
    by (auto simp add: has_surrogate_iff)
  then have "c \<in> set (replace_newlines s)"
    using set_strip [of "replace_newlines s"] by (auto simp add: normalize_ws_def)
  then have "c \<in> set s \<or> c = 32"
    by (auto simp add: replace_newlines_def split: if_splits)
  then have "c \<in> set s" using c(2) by auto
  then show False using assms c(2,3) by (auto simp add: has_surrogate_iff)
qed

lemma no_surrogate_slice:
  assumes "\<not> has_surrogate s"
  shows "\<not> has_surrogate (py_slice s i j)"
proof
  assume "has_surrogate (py_slice s i j)"
  then obtain c where c: "c \<in> set (take (j - i) (drop i s))" "55296 \<le> c" "c \<le> 57343"
    by (auto simp add: has_surrogate_iff py_slice_def)
  then have "c \<in> set s"
    by (meson in_set_takeD in_set_dropD)
  then show False using assms c(2,3) by (auto simp add: has_surrogate_iff)
qed

lemma no_surrogate_A: "\<not> has_surrogate (replicate n 65)"
  by (auto simp add: has_surrogate_iff)

text \<open>The parameter tuples of the chunks of one post can all be bound.\<close>

lemma bind_enumerated:
  assumes bound: "\<forall>x \<in> set [post_id v, topic_id v, topic_title v, post_number v, author v,
                               created_at v, likes v, url v]. bind_param x = None"
    and clean: "\<forall>chunk \<in> set chunks. \<not> has_surrogate chunk"
    and short: "int (length chunks) < 2 ^ 63"
  shows "\<forall>(idx, chunk) \<in> set (enumerate 0 chunks).
           bind_parameters (parameter_tuple v idx chunk) = None"
proof (intro ballI, clarify)
  fix idx chunk
  assume "(idx, chunk) \<in> set (enumerate 0 chunks)"
  then have idx: "idx < length chunks" and c: "chunk = chunks ! idx"
    by (auto simp add: in_set_enumerate_eq)
  have "chunk \<in> set chunks"
    using idx c by simp
  then have "bind_param (JStr chunk) = None"
    using clean by simp
  moreover have "bind_param (JInt (int idx)) = None"
    using idx short by simp
  ultimately show "bind_parameters (parameter_tuple v idx chunk) = None"
    using bound by (simp add: bind_parameters_None parameter_tuple_def)
qed

text \<open>
  Claim C1, as the code has it. Take one post that has all its keys, whose values SQLite
  can bind (integers within 64 bits, strings without surrogate), whose \<open>post_id\<close> is an
  integer, and whose content is 2500 characters long after normalisation. Ingesting it
  appends exactly four rows, with \<open>chunk_index\<close> 0, 1, 2, 3, all with the post's
  \<open>post_id\<close>: the windows start at the offsets 0, 800, 1600 and 2400, the last one
  holding the final 100 characters.
\<close>

theorem C1_post_of_2500_characters:
  assumes body: "post ''content'' = Some (JStr c)"
    and len: "length (normalize_ws c) = 2500"
    and clean: "\<not> has_surrogate c"
    and vals: "discourse_values post = Inr v"
    and bound: "\<forall>x \<in> set [post_id v, topic_id v, topic_title v, post_number v, author v,
                            created_at v, likes v, url v]. bind_param x = None"
    and pid: "post ''post_id'' = Some (JInt pid)"
  shows "\<exists>db' new.
     process_discourse [post] db = Inr db' \<and>
     rows (discourse_chunks db') = rows (discourse_chunks db) @ new \<and>
     length new = 4 \<and>
     map chunk_index new = [0, 1, 2, 3] \<and>
     (\<forall>r \<in> set new. post_id (meta r) = SInteger pid) \<and>
     map content new =
       [py_slice (normalize_ws c) 0 1000, py_slice (normalize_ws c) 800 1800,
        py_slice (normalize_ws c) 1600 2600, py_slice (normalize_ws c) 2400 3400]"
proof -
  let ?n = "normalize_ws c"
  let ?chunks = "[py_slice ?n 0 1000, py_slice ?n 800 1800, py_slice ?n 1600 2600,
                  py_slice ?n 2400 3400]"
  let ?tbl = "insert_chunks (stored_meta v) (enumerate 0 ?chunks) (discourse_chunks db)"
  have "length (normalize_ws (strip c)) = 2500"
    using len by (simp add: normalize_strip)
  then have chunks: "create_chunks (strip c) = ?chunks"
    using create_chunks_2500 [of "strip c"] by (simp add: normalize_strip)
  have no_sur: "\<not> has_surrogate (py_slice ?n i j)" for i j
    using clean by (intro no_surrogate_slice no_surrogate_normalize)
  have "\<forall>chunk \<in> set ?chunks. \<not> has_surrogate chunk"
    by (simp add: no_sur)
  then have all_bind: "\<forall>(idx, chunk) \<in> set (enumerate 0 ?chunks).
      bind_parameters (parameter_tuple v idx chunk) = None"
    using bound by (intro bind_enumerated) simp_all
  have loop: "discourse_loop [post] (discourse_chunks db) = Inr ?tbl"
    using insert_post_chunks_ok [OF vals all_bind, of "discourse_chunks db"]
    by (simp add: getitem_def body chunks)
  then have run: "process_discourse [post] db = Inr (db\<lparr>discourse_chunks := ?tbl\<rparr>)"
    by (simp add: process_discourse_def)
  obtain new where new: "rows ?tbl = rows (discourse_chunks db) @ new"
      "map chunk_index new = map fst (enumerate 0 ?chunks)"
      "map content new = map snd (enumerate 0 ?chunks)"
      "\<forall>r \<in> set new. meta r = stored_meta v \<and> embedding r = None"
    using rows_insert_chunks [of "stored_meta v" "enumerate 0 ?chunks" "discourse_chunks db"]
    by blast
  have "post_id v = JInt pid"
    using discourse_values_post_id [OF vals] pid by simp
  then have "post_id (stored_meta v) = SInteger pid"
    by (simp add: stored_meta_def)
  then have ids: "\<forall>r \<in> set new. post_id (meta r) = SInteger pid"
    using new(4) by simp
  have idx: "map chunk_index new = [0, 1, 2, 3]"
    using new(2) by (simp add: eval_nat_numeral)
  have cont: "map content new = ?chunks"
    using new(3) by simp
  have four: "length new = 4"
    using arg_cong [OF cont, of length] by simp
  show ?thesis
    using run new(1) four idx ids cont
    by (intro exI [of _ "db\<lparr>discourse_chunks := ?tbl\<rparr>"] exI [of _ new]) simp
qed

lemma long_post_normalized: "normalize_ws (replicate 2500 65) = replicate 2500 65"
  using not_space_A by (rule normalize_replicate)

lemma long_post_values:
  "discourse_values long_post =
     Inr \<lparr>post_id = JInt 7, topic_id = JInt 3, topic_title = JStr (str_of ''T''),
          post_number = JInt 1, author = JStr (str_of ''ann''),
          created_at = JStr (str_of ''2024''), likes = JInt 0, url = JStr (str_of ''u'')\<rparr>"
  by (simp add: discourse_values_def getitem_def long_post_def demo_post_def)

lemma long_post_bound:
  "\<forall>x \<in> set [JInt 7, JInt 3, JStr (str_of ''T''), JInt 1, JStr (str_of ''ann''),
               JStr (str_of ''2024''), JInt 0, JStr (str_of ''u'')]. bind_param x = None"
  by (simp add: has_surrogate_def str_of_def)

theorem C1_witness:
  "long_post ''content'' = Some (JStr (replicate 2500 65)) \<and>
   length (normalize_ws (replicate 2500 65)) = 2500 \<and>
   \<not> has_surrogate (replicate 2500 65) \<and>
   long_post ''post_id'' = Some (JInt 7) \<and>
   (\<exists>db' new.
     process_discourse [long_post] demo_store = Inr db' \<and>
     rows (discourse_chunks db') = rows (discourse_chunks demo_store) @ new \<and>
     length new = 4 \<and>
     map chunk_index new = [0, 1, 2, 3] \<and>
     (\<forall>r \<in> set new. post_id (meta r) = SInteger 7) \<and>
     map content new =
       [replicate 1000 65, replicate 1000 65, replicate 900 65, replicate 100 65])"
proof -
  have body: "long_post ''content'' = Some (JStr (replicate 2500 65))"
    by (simp add: long_post_def)
  have len: "length (normalize_ws (replicate 2500 65)) = 2500"
    by (simp add: long_post_normalized)
  have pid: "long_post ''post_id'' = Some (JInt 7)"
    by (simp add: long_post_def demo_post_def)
  have bound: "\<forall>x \<in> set [post_id v, topic_id v, topic_title v, post_number v, author v,
                            created_at v, likes v, url v]. bind_param x = None"
    if "v = \<lparr>post_id = JInt 7, topic_id = JInt 3, topic_title = JStr (str_of ''T''),
          post_number = JInt 1, author = JStr (str_of ''ann''),
          created_at = JStr (str_of ''2024''), likes = JInt 0, url = JStr (str_of ''u'')\<rparr>"
    for v :: "jval discourse_meta"
    using long_post_bound by (simp add: that)
  show ?thesis
    using body len pid no_surrogate_A [of 2500]
      C1_post_of_2500_characters [OF body len no_surrogate_A long_post_values
        bound [OF refl] pid, of demo_store]
    by (simp add: long_post_normalized slice_replicate)
qed

text \<open>
  Claim C1 as stated fails: the post with content \<open>"A" * 2500\<close>, ingested into a new
  database, gives four rows, not three.
\<close>

theorem C1_counterexample:
  "long_post ''content'' = Some (JStr (replicate 2500 65)) \<and>
   length (normalize_ws (replicate 2500 65)) = 2500 \<and>
   process_discourse [long_post] (create_db None) = Inr long_post_store \<and>
   map chunk_index (rows (discourse_chunks long_post_store)) = [0, 1, 2, 3] \<and>
   length (rows (discourse_chunks long_post_store)) \<noteq> 3"
proof -
  have body: "getitem long_post ''content'' = Inr (JStr (replicate 2500 65))"
    by (simp add: getitem_def long_post_def)
  have chunks: "create_chunks (strip (replicate 2500 65)) =
      [replicate 1000 65, replicate 1000 65, replicate 900 65, replicate 100 65]"
    using not_space_A by (simp add: strip_replicate chunks_A2500)
  have binds: "bind_parameters (parameter_tuple
       \<lparr>post_id = JInt 7, topic_id = JInt 3, topic_title = JStr (str_of ''T''),
        post_number = JInt 1, author = JStr (str_of ''ann''),
        created_at = JStr (str_of ''2024''), likes = JInt 0, url = JStr (str_of ''u'')\<rparr>
       idx (replicate n 65)) = None" if "idx \<le> 3" for idx n
    using long_post_bound no_surrogate_A [of n] that
    by (simp add: bind_parameters_None parameter_tuple_def)
  have "process_discourse [long_post] (create_db None) = Inr long_post_store"
    by (simp add: process_discourse_def body chunks long_post_values binds stored_meta_def
        long_post_store_def long_post_row_def insert_chunk_def max_id_def empty_table_def)
  then show ?thesis
    by (simp add: long_post_def long_post_normalized long_post_store_def long_post_row_def)
qed

lemma parse_frontmatter_error: "parse_frontmatter doc = Inl e \<Longrightarrow> e = AttributeError"
  by (auto simp add: parse_frontmatter_def split: option.splits prod.splits)

lemma parse_frontmatter_missing:
  assumes "match_frontmatter doc = Some (meta_text, rest)"
    and "re_search_quoted (str_of ''title: '' @ [34]) meta_text = None \<or>
         re_search_quoted (str_of ''original_url: '' @ [34]) meta_text = None \<or>
         re_search_quoted (str_of ''downloaded_at: '' @ [34]) meta_text = None"
  shows "parse_frontmatter doc = Inl AttributeError"
  using assms by (auto simp add: parse_frontmatter_def split: option.splits)

lemma parse_frontmatter_no_header:
  "match_frontmatter doc = None \<Longrightarrow>
   parse_frontmatter doc = Inr (\<lparr>doc_title = [], original_url = [], downloaded_at = []\<rparr>, doc)"
  by (simp add: parse_frontmatter_def)

lemma markdown_loop_error: "markdown_loop files tbl = Inl e \<Longrightarrow> e = AttributeError"
proof (induction files tbl rule: markdown_loop.induct)
  case (1 tbl)
  then show ?case by simp
next
  case (2 filename doc files tbl)
  show ?case
  proof (cases "endswith filename (str_of ''.md'')")
    case False
    then show ?thesis using 2 by simp
  next
    case True
    show ?thesis
    proof (cases "parse_frontmatter doc")
      case (Inl e')
      then show ?thesis
        using True "2.prems" parse_frontmatter_error [OF Inl] by simp
    next
      case (Inr mb)
      obtain m body where mb: "mb = (m, body)" by (cases mb)
      show ?thesis
        using True "2.prems" "2.IH"(2) [OF _ Inr [unfolded mb] refl] by (simp add: Inr mb)
    qed
  qed
qed

lemma markdown_loop_append:
  "markdown_loop (files @ later) tbl =
     (case markdown_loop files tbl of Inl e \<Rightarrow> Inl e | Inr tbl' \<Rightarrow> markdown_loop later tbl')"
  by (induction files tbl rule: markdown_loop.induct) (auto split: sum.splits)

text \<open>
  Claim C2, as the code has it. A markdown file whose header block is present but lacks
  one of \<open>title\<close>, \<open>original_url\<close>, \<open>downloaded_at\<close> makes \<open>process_markdown\<close> raise
  \<open>AttributeError\<close>, wherever the file stands in the directory listing; a markdown file
  without header block is chunked into rows with empty strings for the three fields, no
  error.
\<close>

theorem C2_frontmatter_handling:
  "(endswith name (str_of ''.md'') \<and>
    match_frontmatter doc = Some (meta_text, rest) \<and>
    (re_search_quoted (str_of ''title: '' @ [34]) meta_text = None \<or>
     re_search_quoted (str_of ''original_url: '' @ [34]) meta_text = None \<or>
     re_search_quoted (str_of ''downloaded_at: '' @ [34]) meta_text = None) \<longrightarrow>
    process_markdown (before @ (name, doc) # later) db = Inl AttributeError) \<and>
   (endswith name (str_of ''.md'') \<and> match_frontmatter doc = None \<longrightarrow>
    (\<exists>db' new.
       process_markdown [(name, doc)] db = Inr db' \<and>
       discourse_chunks db' = discourse_chunks db \<and>
       rows (markdown_chunks db') = rows (markdown_chunks db) @ new \<and>
       map content new = create_chunks doc \<and>
       map chunk_index new = [0..<length (create_chunks doc)] \<and>
       (\<forall>r \<in> set new.
          meta r = \<lparr>doc_title = [], original_url = [], downloaded_at = []\<rparr> \<and>
          embedding r = None)))"
proof (intro conjI impI)
  assume a: "endswith name (str_of ''.md'') \<and>
    match_frontmatter doc = Some (meta_text, rest) \<and>
    (re_search_quoted (str_of ''title: '' @ [34]) meta_text = None \<or>
     re_search_quoted (str_of ''original_url: '' @ [34]) meta_text = None \<or>
     re_search_quoted (str_of ''downloaded_at: '' @ [34]) meta_text = None)"
  then have parse: "parse_frontmatter doc = Inl AttributeError"
    using parse_frontmatter_missing [of doc meta_text rest] by blast
  have here: "markdown_loop ((name, doc) # later) tbl = Inl AttributeError" for tbl
    using a parse by simp
  have "markdown_loop (before @ (name, doc) # later) (markdown_chunks db) = Inl AttributeError"
  proof (cases "markdown_loop before (markdown_chunks db)")
    case (Inl e)
    then show ?thesis
      using markdown_loop_error [OF Inl] by (simp add: markdown_loop_append)
  next
    case (Inr tbl')
    then show ?thesis
      using here [of tbl'] by (simp add: markdown_loop_append)
  qed
  then show "process_markdown (before @ (name, doc) # later) db = Inl AttributeError"
    by (simp add: process_markdown_def)
next
  assume a: "endswith name (str_of ''.md'') \<and> match_frontmatter doc = None"
  let ?m = "\<lparr>doc_title = [], original_url = [], downloaded_at = []\<rparr>"
  let ?tbl = "insert_chunks ?m (enumerate 0 (create_chunks doc)) (markdown_chunks db)"
  have run: "process_markdown [(name, doc)] db = Inr (db\<lparr>markdown_chunks := ?tbl\<rparr>)"
    using a by (simp add: process_markdown_def parse_frontmatter_no_header)
  obtain new where new: "rows ?tbl = rows (markdown_chunks db) @ new"
      "map chunk_index new = map fst (enumerate 0 (create_chunks doc))"
      "map content new = map snd (enumerate 0 (create_chunks doc))"
      "\<forall>r \<in> set new. meta r = ?m \<and> embedding r = None"
    using rows_insert_chunks [of ?m "enumerate 0 (create_chunks doc)" "markdown_chunks db"]
    by blast
  have idx: "map chunk_index new = [0..<length (create_chunks doc)]"
    using new(2) by simp
  have cont: "map content new = create_chunks doc"
    using new(3) by simp
  show "\<exists>db' new.
       process_markdown [(name, doc)] db = Inr db' \<and>
       discourse_chunks db' = discourse_chunks db \<and>
       rows (markdown_chunks db') = rows (markdown_chunks db) @ new \<and>
       map content new = create_chunks doc \<and>
       map chunk_index new = [0..<length (create_chunks doc)] \<and>
       (\<forall>r \<in> set new. meta r = ?m \<and> embedding r = None)"
    using run new(1) idx cont new(4)
    by (intro exI [of _ "db\<lparr>markdown_chunks := ?tbl\<rparr>"] exI [of _ new]) simp
qed

lemma doc_without_url_header:
  "match_frontmatter doc_without_url = Some (str_of ''title: '' @ [34] @ str_of ''X'' @ [34], str_of ''body'')"
  by (simp add: match_frontmatter_def doc_without_url_def str_of_def)

lemma doc_without_url_search:
  "re_search_quoted (str_of ''original_url: '' @ [34]) (str_of ''title: '' @ [34] @ str_of ''X'' @ [34]) = None"
  by (simp add: str_of_def)

lemma md_name: "endswith (str_of ''a.md'') (str_of ''.md'')"
  by (simp add: endswith_def str_of_def suffix_def)

lemma body_no_header: "match_frontmatter (str_of ''body'') = None"
  by (simp add: match_frontmatter_def str_of_def)

lemma body_chunks: "create_chunks (str_of ''body'') = [str_of ''body'']"
  by (simp add: create_chunks_def str_of_def strip_def replace_newlines_def py_isspace_def
      CHUNK_SIZE_def)

theorem C2_witness:
  "endswith (str_of ''a.md'') (str_of ''.md'') \<and>
   match_frontmatter doc_without_url =
     Some (str_of ''title: '' @ [34] @ str_of ''X'' @ [34], str_of ''body'') \<and>
   re_search_quoted (str_of ''original_url: '' @ [34])
     (str_of ''title: '' @ [34] @ str_of ''X'' @ [34]) = None \<and>
   process_markdown [(str_of ''a.md'', doc_without_url)] demo_store = Inl AttributeError \<and>
   match_frontmatter (str_of ''body'') = None \<and>
   (\<exists>db' new.
      process_markdown [(str_of ''a.md'', str_of ''body'')] demo_store = Inr db' \<and>
      discourse_chunks db' = discourse_chunks demo_store \<and>
      rows (markdown_chunks db') = rows (markdown_chunks demo_store) @ new \<and>
      map content new = [str_of ''body''] \<and>
      map chunk_index new = [0] \<and>
      (\<forall>r \<in> set new.
         meta r = \<lparr>doc_title = [], original_url = [], downloaded_at = []\<rparr> \<and>
         embedding r = None))"
proof -
  note thm1 = C2_frontmatter_handling [of "str_of ''a.md''" doc_without_url
      "str_of ''title: '' @ [34] @ str_of ''X'' @ [34]" "str_of ''body''" "[]" "[]" demo_store]
  note thm2 = C2_frontmatter_handling [of "str_of ''a.md''" "str_of ''body''" "[]" "[]" "[]" "[]"
      demo_store]
  have fails: "process_markdown [(str_of ''a.md'', doc_without_url)] demo_store = Inl AttributeError"
    using thm1 md_name doc_without_url_header doc_without_url_search by simp
  have "\<exists>db' new.
      process_markdown [(str_of ''a.md'', str_of ''body'')] demo_store = Inr db' \<and>
      discourse_chunks db' = discourse_chunks demo_store \<and>
      rows (markdown_chunks db') = rows (markdown_chunks demo_store) @ new \<and>
      map content new = create_chunks (str_of ''body'') \<and>
      map chunk_index new = [0..<length (create_chunks (str_of ''body''))] \<and>
      (\<forall>r \<in> set new.
         meta r = \<lparr>doc_title = [], original_url = [], downloaded_at = []\<rparr> \<and>
         embedding r = None)"
    using thm2 md_name body_no_header by blast
  then have ok: "\<exists>db' new.
      process_markdown [(str_of ''a.md'', str_of ''body'')] demo_store = Inr db' \<and>
      discourse_chunks db' = discourse_chunks demo_store \<and>
      rows (markdown_chunks db') = rows (markdown_chunks demo_store) @ new \<and>
      map content new = [str_of ''body''] \<and>
      map chunk_index new = [0] \<and>
      (\<forall>r \<in> set new.
         meta r = \<lparr>doc_title = [], original_url = [], downloaded_at = []\<rparr> \<and>
         embedding r = None)"
    by (simp add: body_chunks)
  show ?thesis
    using md_name doc_without_url_header doc_without_url_search fails body_no_header ok
    by blast
qed

text \<open>
  Claim C2 as stated fails: for a document whose header has a title only, the error is
  \<open>AttributeError\<close>, not \<open>MalformedDocumentError\<close>.
\<close>

theorem C2_counterexample:
  "endswith (str_of ''a.md'') (str_of ''.md'') \<and>
   match_frontmatter doc_without_url =
     Some (str_of ''title: '' @ [34] @ str_of ''X'' @ [34], str_of ''body'') \<and>
   re_search_quoted (str_of ''original_url: '' @ [34])
     (str_of ''title: '' @ [34] @ str_of ''X'' @ [34]) = None \<and>
   process_markdown [(str_of ''a.md'', doc_without_url)] demo_store = Inl AttributeError \<and>
   process_markdown [(str_of ''a.md'', doc_without_url)] demo_store \<noteq> Inl MalformedDocumentError"
proof -
  have "parse_frontmatter doc_without_url = Inl AttributeError"
    using doc_without_url_header doc_without_url_search
    by (simp add: parse_frontmatter_def str_of_def)
  then have "process_markdown [(str_of ''a.md'', doc_without_url)] demo_store = Inl AttributeError"
    using md_name by (simp add: process_markdown_def)
  then show ?thesis
    using md_name doc_without_url_header doc_without_url_search by simp
qed

end
